theory Spec2Isabelle
  imports Complex_Main
begin

chapter \<open>The embedding\<close>

section \<open>Strings\<close>

text \<open>
  A JavaScript string is a sequence of UTF-16 code units. The contents of documents,
  queries and file paths, which the user or the backend provides and into which the
  dataview panel looks, are kept as lists of code units, as numbers; \<open>str\<close> gives the
  code units of a literal of the source. Keys, routes, URLs and messages, which the code
  only passes on or compares with its own literals, are plain strings.
\<close>

type_synonym js_string = "nat list"

definition str :: "string \<Rightarrow> js_string" where
  "str s = map of_char s"


section \<open>PDF viewer: the zoom handlers (src/src/PDFViewer.tsx)\<close>

text \<open>
  \<^verbatim>\<open>const [scale, setScale] = useState<number>(1.0);\<close>

  \<^verbatim>\<open>handleZoomIn  = () => setScale((prevScale) => Math.min(prevScale + 0.1, 2.0));\<close>
  \<^verbatim>\<open>handleZoomOut = () => setScale((prevScale) => Math.max(prevScale - 0.1, 0.5));\<close>
  \<^verbatim>\<open>handleZoomReset = () => setScale(1.0);\<close>

  \<open>scale\<close> is a JavaScript number, an IEEE double. A double that is not NaN or infinite is
  a real number, and \<open>prevScale + 0.1\<close> is the exact sum rounded to a double. The model
  takes the rounding \<open>rnd\<close> and the double \<open>tenth\<close> that the literal \<open>0.1\<close> denotes as
  parameters, so nothing is assumed about them here; \<open>Math.min\<close>, \<open>Math.max\<close> and the
  literals \<open>0.5\<close>, \<open>1.0\<close>, \<open>2.0\<close> are exact.
\<close>

definition initial_scale :: real where
  "initial_scale = 1"

definition handleZoomIn :: "(real \<Rightarrow> real) \<Rightarrow> real \<Rightarrow> real \<Rightarrow> real" where
  "handleZoomIn rnd tenth prevScale = min (rnd (prevScale + tenth)) 2"

definition handleZoomOut :: "(real \<Rightarrow> real) \<Rightarrow> real \<Rightarrow> real \<Rightarrow> real" where
  "handleZoomOut rnd tenth prevScale = max (rnd (prevScale - tenth)) (1 / 2)"

definition handleZoomReset :: "real \<Rightarrow> real" where
  "handleZoomReset prevScale = 1"

datatype zoom_click = ZoomIn | ZoomOut | ZoomReset

fun click :: "(real \<Rightarrow> real) \<Rightarrow> real \<Rightarrow> real \<Rightarrow> zoom_click \<Rightarrow> real" where
  "click rnd tenth s ZoomIn = handleZoomIn rnd tenth s"
| "click rnd tenth s ZoomOut = handleZoomOut rnd tenth s"
| "click rnd tenth s ZoomReset = handleZoomReset s"

text \<open>The scale after a sequence of clicks on the three toolbar buttons.\<close>

definition scale_after :: "(real \<Rightarrow> real) \<Rightarrow> real \<Rightarrow> zoom_click list \<Rightarrow> real" where
  "scale_after rnd tenth clicks = foldl (click rnd tenth) initial_scale clicks"

text \<open>
  What the proofs use of double arithmetic: rounding is monotone, and \<open>0.5\<close> and \<open>2.0\<close>
  are doubles, so rounding leaves them as they are; \<open>0.1\<close> denotes a double that is not
  negative.
\<close>

definition double_rounding :: "(real \<Rightarrow> real) \<Rightarrow> real \<Rightarrow> bool" where
  "double_rounding rnd tenth \<longleftrightarrow>
     (\<forall>x y. x \<le> y \<longrightarrow> rnd x \<le> rnd y) \<and> rnd (1 / 2) = 1 / 2 \<and> rnd 2 = 2 \<and> 0 \<le> tenth"

section \<open>Kanban board: the drag handler (KanbanBoard, in src/src/components/Toast.tsx)\<close>

text \<open>
  \<^verbatim>\<open>interface KanbanItem { id; content; tags; dueDate?; priority? }\<close>
  \<^verbatim>\<open>interface KanbanColumn { id; title; items: KanbanItem[] }\<close>
  \<^verbatim>\<open>const [columns, setColumns] = useState<Record<string, KanbanColumn>>({});\<close>
\<close>

datatype priority = low | medium | high

record KanbanItem =
  item_id :: string
  item_content :: string
  tags :: "string list"
  dueDate :: "string option"
  priority :: "priority option"

record KanbanColumn =
  column_id :: string
  title :: string
  items :: "KanbanItem list"

type_synonym columns = "string \<rightharpoonup> KanbanColumn"

text \<open>The state of the component: \<open>columns\<close>, \<open>isLoading\<close>, \<open>error\<close>.\<close>

record kanban_state =
  columns :: columns
  isLoading :: bool
  error :: "string option"

text \<open>
  The argument of \<open>onDragEnd\<close>: \<open>result.source\<close> and \<open>result.destination\<close>, each a
  \<open>droppableId\<close> and an \<open>index\<close>; the destination is null when the card was dropped
  outside every column. An index is a JavaScript number: an integer here.
\<close>

record location =
  droppableId :: string
  index :: int

record drop_result =
  source :: location
  destination :: "location option"

text \<open>
  \<open>Array.prototype.splice(start, deleteCount, ...new)\<close>: a negative \<open>start\<close> counts from
  the end, \<open>start\<close> is clamped to the array and \<open>deleteCount\<close> to what is left from
  there. It returns the removed elements and changes the array in place: the model
  returns both.
\<close>

definition splice_start :: "nat \<Rightarrow> int \<Rightarrow> nat" where
  "splice_start len start =
     (if start < 0 then nat (max (int len + start) 0) else min (nat start) len)"

definition array_splice :: "'a list \<Rightarrow> int \<Rightarrow> nat \<Rightarrow> 'a list \<Rightarrow> 'a list \<times> 'a list" where
  "array_splice xs start deleteCount new =
     (let actualStart = splice_start (length xs) start;
          actualDeleteCount = min deleteCount (length xs - actualStart)
      in (take actualDeleteCount (drop actualStart xs),
          take actualStart xs @ new @ drop (actualStart + actualDeleteCount) xs))"

text \<open>
  How a call of \<open>handleDragEnd\<close> ends. It returns, having called \<open>onBoardUpdate\<close> with the
  listed markdown texts; or reading \<open>.items\<close> of a column that is not on the board throws
  a TypeError; or the source index names no card, \<open>movedItem\<close> is \<open>undefined\<close> and the
  handler puts that into the destination's \<open>items\<close>, which is no \<open>KanbanItem\<close> any more.
  \<open>newColumns = { ...columns }\<close> copies the record of columns, not the columns: both
  \<open>splice\<close> calls change the column objects of the current state in place, so the state
  a throwing call leaves behind is part of its outcome.
\<close>

datatype drag_outcome =
    Returned kanban_state "string list"
  | TypeError kanban_state
  | UndefinedItem

text \<open>
  \<^verbatim>\<open>
  const handleDragEnd = async (result: any) => {
    if (readOnly) return;
    const { source, destination } = result;
    if (!destination) return;
    if (source.droppableId === destination.droppableId &&
        source.index === destination.index) { return; }
    const newColumns = { ...columns };
    const sourceColumn = newColumns[source.droppableId];
    const [movedItem] = sourceColumn.items.splice(source.index, 1);
    const destColumn = newColumns[destination.droppableId];
    destColumn.items.splice(destination.index, 0, movedItem);
    setColumns(newColumns);
    try {
      const response = await axios.post('/api/kanban/toMarkdown', { columns: newColumns });
      if (onBoardUpdate) { onBoardUpdate(response.data.markdown); }
    } catch (err) { setError('Failed to update Kanban data'); ... }
  };
  \<close>
  \<open>toMarkdown\<close> is the backend's answer to the POST: the markdown, or \<open>None\<close> when the
  request fails. \<open>onBoardUpdate\<close> says whether the optional callback was given.
\<close>

definition handleDragEnd ::
  "bool \<Rightarrow> bool \<Rightarrow> (columns \<Rightarrow> string option) \<Rightarrow> drop_result \<Rightarrow> kanban_state \<Rightarrow> drag_outcome" where
  "handleDragEnd readOnly onBoardUpdate toMarkdown result st =
     (if readOnly then Returned st []
      else case destination result of
        None \<Rightarrow> Returned st []
      | Some dest \<Rightarrow>
          if droppableId (source result) = droppableId dest \<and> index (source result) = index dest
          then Returned st []
          else
            (case columns st (droppableId (source result)) of
              None \<Rightarrow> TypeError st
            | Some sourceColumn \<Rightarrow>
                let (removed, rest) = array_splice (items sourceColumn) (index (source result)) 1 [];
                    cols1 = (columns st)(droppableId (source result) \<mapsto> sourceColumn\<lparr>items := rest\<rparr>)
                in
                  (case cols1 (droppableId dest) of
                    None \<Rightarrow> TypeError (st\<lparr>columns := cols1\<rparr>)
                  | Some destColumn \<Rightarrow>
                      (case removed of
                        [] \<Rightarrow> UndefinedItem
                      | movedItem # _ \<Rightarrow>
                          let newColumns = cols1(droppableId dest \<mapsto>
                                destColumn\<lparr>items := snd (array_splice (items destColumn) (index dest) 0 [movedItem])\<rparr>)
                          in
                            (case toMarkdown newColumns of
                              Some markdown \<Rightarrow>
                                Returned (st\<lparr>columns := newColumns\<rparr>) (if onBoardUpdate then [markdown] else [])
                            | None \<Rightarrow>
                                Returned (st\<lparr>columns := newColumns, error := Some ''Failed to update Kanban data''\<rparr>) [])))))"

text \<open>The board a call leaves behind when it returns.\<close>

definition board_after :: "drag_outcome \<Rightarrow> columns option" where
  "board_after out = (case out of Returned st' calls \<Rightarrow> Some (columns st') | _ \<Rightarrow> None)"

text \<open>
  The words of the claim about a list of cards: the list without its element at place
  \<open>i\<close>, and the list with \<open>x\<close> put in at place \<open>j\<close>. Every other element keeps its
  place relative to the others.
\<close>

definition remove_at :: "nat \<Rightarrow> 'a list \<Rightarrow> 'a list" where
  "remove_at i xs = take i xs @ drop (Suc i) xs"

definition insert_at :: "nat \<Rightarrow> 'a \<Rightarrow> 'a list \<Rightarrow> 'a list" where
  "insert_at j x xs = take j xs @ x # drop j xs"

text \<open>A board of named columns of named cards, and a place on it, for concrete runs.\<close>

definition card :: "string \<Rightarrow> KanbanItem" where
  "card n = \<lparr>item_id = n, item_content = n, tags = [], dueDate = None, priority = None\<rparr>"

definition board :: "(string \<times> string list) list \<Rightarrow> kanban_state" where
  "board cs =
     \<lparr>columns = map_of (map (\<lambda>(c, ns). (c, \<lparr>column_id = c, title = c, items = map card ns\<rparr>)) cs),
      isLoading = False, error = None\<rparr>"

definition place :: "string \<Rightarrow> int \<Rightarrow> location" where
  "place c i = \<lparr>droppableId = c, index = i\<rparr>"


section \<open>HTTP answers\<close>

text \<open>
  What an awaited \<open>axios\<close> call gives: the response, or a rejection with an error.
  \<open>error.response\<close> is missing when no response arrived; when it is there it carries the
  status and, in its data, the fields the handlers read: \<open>detail\<close> and \<open>error\<close>.
\<close>

record http_error =
  response_status :: "nat option"
  response_detail :: "string option"
  response_error :: "string option"

datatype 'a answer = Ok 'a | Failed http_error

text \<open>\<open>a || b\<close> on an optional string: \<open>undefined\<close>, \<open>null\<close> and the empty string are falsy.\<close>

definition or_else :: "string option \<Rightarrow> string \<Rightarrow> string" where
  "or_else a b = (case a of None \<Rightarrow> b | Some x \<Rightarrow> if x = [] then b else x)"


section \<open>Authentication and application contexts (src/unnamed/part_004)\<close>

text \<open>
  \<^verbatim>\<open>interface User { username; email?; full_name?; disabled? }\<close>
\<close>

record User =
  username :: string
  email :: "string option"
  full_name :: "string option"
  disabled :: "bool option"

datatype theme = light | dark

text \<open>
  The browser and the two providers. \<open>localStorage\<close> is the browser's storage, which
  outlives the page; \<open>route\<close> is the router's location, which \<open>navigate\<close> sets;
  \<open>data_theme\<close> is the attribute of the document element. \<open>user\<close>, \<open>auth_isLoading\<close>
  and \<open>auth_error\<close> are the state hooks \<open>user\<close>, \<open>isLoading\<close>, \<open>error\<close> of
  \<open>AuthProvider\<close>; \<open>theme\<close> and \<open>isLeftNavCollapsed\<close> are those of \<open>AppProvider\<close>.
\<close>

record client =
  localStorage :: "string \<rightharpoonup> string"
  route :: string
  data_theme :: "string option"
  user :: "User option"
  auth_isLoading :: bool
  auth_error :: "string option"
  theme :: theme
  isLeftNavCollapsed :: bool

definition navigate :: "string \<Rightarrow> client \<Rightarrow> client" where
  "navigate to c = c\<lparr>route := to\<rparr>"

text \<open>
  \<^verbatim>\<open>
  const logout = () => {
    localStorage.removeItem('token');
    setUser(null);
    navigate('/login');
  };
  \<close>
\<close>

definition logout :: "client \<Rightarrow> client" where
  "logout c = navigate ''/login'' (c\<lparr>localStorage := (localStorage c)(''token'' := None), user := None\<rparr>)"

text \<open>
  The rejection handler of the response interceptor; it passes the error on
  (\<open>Promise.reject(error)\<close>), so the caller's \<open>catch\<close> runs after it.
  \<^verbatim>\<open>
  (error) => {
    if (error.response && error.response.status === 401) {
      logout();
      navigate('/login');
    }
    return Promise.reject(error);
  }
  \<close>
\<close>

definition response_interceptor :: "http_error \<Rightarrow> client \<Rightarrow> client" where
  "response_interceptor err c =
     (if response_status err = Some 401 then navigate ''/login'' (logout c) else c)"

text \<open>
  \<^verbatim>\<open>
  const checkAuth = async () => {
    const token = localStorage.getItem('token');
    if (!token) { setIsLoading(false); return; }
    try {
      const response = await axios.get(`${API_URL}/auth/users/me`);
      setUser(response.data);
    } catch (err) {
      localStorage.removeItem('token');
    } finally {
      setIsLoading(false);
    }
  };
  \<close>
\<close>

definition checkAuth :: "User answer \<Rightarrow> client \<Rightarrow> client" where
  "checkAuth me c =
     (if or_else (localStorage c ''token'') [] = [] then c\<lparr>auth_isLoading := False\<rparr>
      else case me of
        Ok u \<Rightarrow> c\<lparr>user := Some u, auth_isLoading := False\<rparr>
      | Failed err \<Rightarrow>
          (let c1 = response_interceptor err c
           in c1\<lparr>localStorage := (localStorage c1)(''token'' := None), auth_isLoading := False\<rparr>))"

text \<open>
  \<^verbatim>\<open>
  const login = async (username: string, password: string) => {
    setIsLoading(true);
    setError(null);
    try {
      const response = await axios.post(`${API_URL}/auth/token`, ...);
      const { access_token } = response.data;
      localStorage.setItem('token', access_token);
      const userResponse = await axios.get(`${API_URL}/auth/users/me`, ...);
      setUser(userResponse.data);
      navigate('/dashboard');
    } catch (err: any) {
      setError(err.response?.data?.detail || 'Failed to login. Please try again.');
    } finally {
      setIsLoading(false);
    }
  };
  \<close>
  \<open>token\<close> and \<open>me\<close> are the backend's answers to the two requests.
\<close>

definition login_failed :: "http_error \<Rightarrow> client \<Rightarrow> client" where
  "login_failed err c =
     (response_interceptor err c)
       \<lparr>auth_isLoading := False,
        auth_error := Some (or_else (response_detail err) ''Failed to login. Please try again.'')\<rparr>"

definition login :: "string answer \<Rightarrow> User answer \<Rightarrow> client \<Rightarrow> client" where
  "login token me c =
     (let c1 = c\<lparr>auth_isLoading := True, auth_error := None\<rparr> in
      case token of
        Failed err \<Rightarrow> login_failed err c1
      | Ok access_token \<Rightarrow>
          (let c2 = c1\<lparr>localStorage := (localStorage c1)(''token'' \<mapsto> access_token)\<rparr> in
           case me of
             Failed err \<Rightarrow> login_failed err c2
           | Ok u \<Rightarrow> (navigate ''/dashboard'' (c2\<lparr>user := Some u\<rparr>))\<lparr>auth_isLoading := False\<rparr>))"

text \<open>
  \<^verbatim>\<open>
  const toggleTheme = () => {
    const newTheme = theme === 'light' ? 'dark' : 'light';
    setTheme(newTheme);
    localStorage.setItem('theme', newTheme);
    document.documentElement.setAttribute('data-theme', newTheme);
  };
  const toggleLeftNav = () => {
    setIsLeftNavCollapsed(!isLeftNavCollapsed);
    localStorage.setItem('leftNavCollapsed', String(!isLeftNavCollapsed));
  };
  \<close>
\<close>

definition theme_name :: "theme \<Rightarrow> string" where
  "theme_name t = (case t of light \<Rightarrow> ''light'' | dark \<Rightarrow> ''dark'')"

definition String_of_bool :: "bool \<Rightarrow> string" where
  "String_of_bool b = (if b then ''true'' else ''false'')"

definition toggleTheme :: "client \<Rightarrow> client" where
  "toggleTheme c =
     (let newTheme = (if theme c = light then dark else light)
      in c\<lparr>theme := newTheme,
           localStorage := (localStorage c)(''theme'' \<mapsto> theme_name newTheme),
           data_theme := Some (theme_name newTheme)\<rparr>)"

definition toggleLeftNav :: "client \<Rightarrow> client" where
  "toggleLeftNav c =
     c\<lparr>isLeftNavCollapsed := \<not> isLeftNavCollapsed c,
       localStorage := (localStorage c)(''leftNavCollapsed'' \<mapsto> String_of_bool (\<not> isLeftNavCollapsed c))\<rparr>"

text \<open>
  Loading the page anew: the browser keeps \<open>localStorage\<close> and nothing else. The state
  hooks start from their initial values, two of which \<open>AppProvider\<close> reads from storage:
  \<^verbatim>\<open>
  useState(() => { const savedTheme = localStorage.getItem('theme');
                   return savedTheme === 'dark' ? 'dark' : 'light'; });
  useState(() => { const saved = localStorage.getItem('leftNavCollapsed');
                   return saved === 'true'; });
  \<close>
  and the mount effect sets the document's attribute from the theme.
\<close>

definition reload :: "string \<Rightarrow> client \<Rightarrow> client" where
  "reload url c =
     (let t = (if localStorage c ''theme'' = Some ''dark'' then dark else light)
      in \<lparr>localStorage = localStorage c, route = url, data_theme = Some (theme_name t),
          user = None, auth_isLoading = True, auth_error = None,
          theme = t, isLeftNavCollapsed = (localStorage c ''leftNavCollapsed'' = Some ''true'')\<rparr>)"

text \<open>
  The operations of the two providers that reach \<open>localStorage\<close>, run one after the
  other. No other code of the repository writes \<open>localStorage\<close>; what a library keeps
  there for itself (the colour mode of the component library) is not modelled.
\<close>

datatype client_op =
    Login "string answer" "User answer"
  | Logout
  | CheckAuth "User answer"
  | Rejected http_error
  | ToggleTheme
  | ToggleLeftNav
  | Reload string

fun run_op :: "client \<Rightarrow> client_op \<Rightarrow> client" where
  "run_op c (Login token me) = login token me c"
| "run_op c Logout = logout c"
| "run_op c (CheckAuth me) = checkAuth me c"
| "run_op c (Rejected err) = response_interceptor err c"
| "run_op c ToggleTheme = toggleTheme c"
| "run_op c ToggleLeftNav = toggleLeftNav c"
| "run_op c (Reload url) = reload url c"

text \<open>The client when the page is first opened at \<open>url\<close> with the given storage.\<close>

definition fresh :: "(string \<rightharpoonup> string) \<Rightarrow> string \<Rightarrow> client" where
  "fresh storage url =
     reload url \<lparr>localStorage = storage, route = url, data_theme = None, user = None,
       auth_isLoading = True, auth_error = None, theme = light, isLeftNavCollapsed = False\<rparr>"


section \<open>Reader (src/unnamed/part_003)\<close>

text \<open>
  The state hooks \<open>renderedContent\<close>, \<open>loading\<close>, \<open>error\<close> of the component.
\<close>

record reader_state =
  renderedContent :: string
  loading :: bool
  reader_error :: "string option"

text \<open>
  The effect on \<open>[content, filePath]\<close>, in its two steps: what runs at once, and what runs
  when the request settles with the backend's answer \<open>a\<close> (the field \<open>html\<close> of the
  response data).
  \<^verbatim>\<open>
  if (!content) { setRenderedContent(''); return; }
  const renderMarkdown = async () => {
    setLoading(true);
    try {
      const response = await axios.post('/api/render/markdown', {...});
      setRenderedContent(response.data.html);
      setError(null);
    } catch (err) {
      setError('Failed to render content');
    } finally {
      setLoading(false);
    }
  };
  renderMarkdown();
  \<close>
\<close>

definition renderMarkdown_start :: "js_string \<Rightarrow> reader_state \<Rightarrow> reader_state" where
  "renderMarkdown_start content s =
     (if content = [] then s\<lparr>renderedContent := []\<rparr> else s\<lparr>loading := True\<rparr>)"

definition renderMarkdown_settle :: "string answer \<Rightarrow> reader_state \<Rightarrow> reader_state" where
  "renderMarkdown_settle a s =
     (case a of
        Ok html \<Rightarrow> s\<lparr>renderedContent := html, reader_error := None, loading := False\<rparr>
      | Failed err \<Rightarrow> s\<lparr>reader_error := Some ''Failed to render content'', loading := False\<rparr>)"

text \<open>
  What the component returns: one of two texts, or a \<open>div\<close> whose inner HTML is set.
  \<open>sanitize\<close> is \<open>DOMPurify.sanitize\<close>, a function of the library.
  \<^verbatim>\<open>
  if (loading) { return <div ...>Rendering...</div>; }
  if (error) { return <div ...>{error}</div>; }
  const sanitizedHtml = DOMPurify.sanitize(renderedContent);
  return <div ... dangerouslySetInnerHTML={{ __html: sanitizedHtml }} />;
  \<close>
\<close>

datatype element = Text string | InnerHTML string

definition Reader :: "(string \<Rightarrow> string) \<Rightarrow> reader_state \<Rightarrow> element" where
  "Reader sanitize s =
     (if loading s then Text ''Rendering...''
      else if or_else (reader_error s) [] \<noteq> [] then Text (or_else (reader_error s) [])
      else InnerHTML (sanitize (renderedContent s)))"

text \<open>The HTML the component hands to the document, if any.\<close>

definition injected_html :: "element \<Rightarrow> string option" where
  "injected_html e = (case e of InnerHTML h \<Rightarrow> Some h | Text t \<Rightarrow> None)"


section \<open>Requests\<close>

datatype json =
    JString js_string
  | JBool bool
  | JNumber int
  | JObject "(string \<times> json) list"
  | JUndefined

datatype http_method = GET | POST | PUT | DELETE

record request =
  req_method :: http_method
  req_url :: string
  req_body :: json

text \<open>\<open>axios.post(url, data)\<close> as the request it sends.\<close>

definition axios_post :: "string \<Rightarrow> json \<Rightarrow> request" where
  "axios_post u data = \<lparr>req_method = POST, req_url = u, req_body = data\<rparr>"

text \<open>
  The generic request handler of the API service (in src/src/useSearch.tsx), as far as
  the request goes: \<open>API_BASE_URL\<close> is \<open>process.env.REACT_APP_API_URL\<close> or
  \<open>http://localhost:8000\<close>, a parameter here.
  \<^verbatim>\<open>
  const request = async <T>(endpoint, method = 'GET', data?, customHeaders?) => {
    const url = `${API_BASE_URL}${endpoint}`;
    ...
    const response = await fetch(url, config);
  \<close>
\<close>

definition api_request :: "string \<Rightarrow> string \<Rightarrow> http_method \<Rightarrow> json \<Rightarrow> request" where
  "api_request API_BASE_URL endpoint m data =
     \<lparr>req_method = m, req_url = API_BASE_URL @ endpoint, req_body = data\<rparr>"

text \<open>
  The requests for the five services, each where the source sends it.

  Reader, \<open>renderMarkdown\<close> (src/unnamed/part_003):
  \<^verbatim>\<open>axios.post('/api/render/markdown', { content, filePath, renderOptions: {...} })\<close>
\<close>

definition Reader_renderMarkdown :: "js_string \<Rightarrow> js_string option \<Rightarrow> request" where
  "Reader_renderMarkdown content filePath =
     axios_post ''/api/render/markdown''
       (JObject [(''content'', JString content),
                 (''filePath'', case filePath of None \<Rightarrow> JUndefined | Some f \<Rightarrow> JString f),
                 (''renderOptions'',
                    JObject [(''includeDataViews'', JBool True), (''resolveLinks'', JBool True)])])"

text \<open>
  The API service (src/src/useSearch.tsx):
  \<^verbatim>\<open>markdownAPI.renderMarkdown: request<any>('/api/markdown/render', 'POST', { content })\<close>
  \<^verbatim>\<open>dataViewAPI.executeQuery:   request<any>('/api/dataview/query', 'POST', { query })\<close>
\<close>

definition markdownAPI_renderMarkdown :: "string \<Rightarrow> js_string \<Rightarrow> request" where
  "markdownAPI_renderMarkdown API_BASE_URL content =
     api_request API_BASE_URL ''/api/markdown/render'' POST (JObject [(''content'', JString content)])"

definition dataViewAPI_executeQuery :: "string \<Rightarrow> js_string \<Rightarrow> request" where
  "dataViewAPI_executeQuery API_BASE_URL query =
     api_request API_BASE_URL ''/api/dataview/query'' POST (JObject [(''query'', JString query)])"

text \<open>
  DataView, \<open>executeQueries\<close> (src/unnamed/part_000):
  \<^verbatim>\<open>axios.post('/api/dataview/execute', { query: query.source, filePath, contextPath: filePath })\<close>
\<close>

definition DataView_execute :: "js_string \<Rightarrow> js_string \<Rightarrow> request" where
  "DataView_execute query_source filePath =
     axios_post ''/api/dataview/execute''
       (JObject [(''query'', JString query_source), (''filePath'', JString filePath),
                 (''contextPath'', JString filePath)])"

text \<open>
  KanbanBoard, \<open>parseMarkdownToKanban\<close>: \<^verbatim>\<open>axios.post('/api/kanban/parse', { content })\<close>

  PDFViewer, \<open>generatePDF\<close>:
  \<^verbatim>\<open>axios.post('/api/export/pdf', { markdown: markdownContent, fileName }, { responseType: 'blob' })\<close>

  Search, \<open>performSearch\<close>:
  \<^verbatim>\<open>axios.post('/api/search/query', { query: debouncedQuery, case_sensitive, regex,
      include_content: true, sort_by, limit: 20, offset: 0 })\<close>
\<close>

definition parseMarkdownToKanban_request :: "js_string \<Rightarrow> request" where
  "parseMarkdownToKanban_request content =
     axios_post ''/api/kanban/parse'' (JObject [(''content'', JString content)])"

definition generatePDF_request :: "js_string \<Rightarrow> js_string \<Rightarrow> request" where
  "generatePDF_request markdownContent fileName =
     axios_post ''/api/export/pdf''
       (JObject [(''markdown'', JString markdownContent), (''fileName'', JString fileName)])"

record searchOptions =
  case_sensitive :: bool
  regex :: bool
  sort_by :: js_string

definition performSearch_request :: "js_string \<Rightarrow> searchOptions \<Rightarrow> request" where
  "performSearch_request debouncedQuery opts =
     axios_post ''/api/search/query''
       (JObject [(''query'', JString debouncedQuery),
                 (''case_sensitive'', JBool (case_sensitive opts)),
                 (''regex'', JBool (regex opts)),
                 (''include_content'', JBool True),
                 (''sort_by'', JString (sort_by opts)),
                 (''limit'', JNumber 20), (''offset'', JNumber 0)])"


section \<open>DataView (src/unnamed/part_000)\<close>

subsection \<open>The extraction regular expression\<close>

text \<open>
  \<^verbatim>\<open>const dataviewRegex = /```dataview\s+([\s\S]*?)```/g;\<close>

  \<open>\s\<close> in a regular expression without the \<open>u\<close> flag: the code units of white space
  and of line terminators.
\<close>

definition is_space :: "nat \<Rightarrow> bool" where
  "is_space c \<longleftrightarrow>
     c \<in> {9, 10, 11, 12, 13, 32, 160, 5760, 8232, 8233, 8239, 8287, 12288, 65279}
     \<or> (8192 \<le> c \<and> c \<le> 8202)"

text \<open>The rest of \<open>s\<close> after the literal \<open>p\<close>, if \<open>s\<close> starts with it.\<close>

fun strip_prefix :: "'a list \<Rightarrow> 'a list \<Rightarrow> 'a list option" where
  "strip_prefix [] s = Some s"
| "strip_prefix (p # ps) [] = None"
| "strip_prefix (p # ps) (c # cs) = (if p = c then strip_prefix ps cs else None)"

text \<open>\<open>String.prototype.includes\<close>.\<close>

fun str_includes :: "'a list \<Rightarrow> 'a list \<Rightarrow> bool" where
  "str_includes [] p = (p = [])"
| "str_includes (c # cs) p = (strip_prefix p (c # cs) \<noteq> None \<or> str_includes cs p)"

definition fence :: js_string where
  "fence = str ''```''"

text \<open>
  \<open>([\s\S]*?)```\<close>: the group is lazy and its class holds every code unit, so it takes
  one code unit at a time until the closing fence matches; the group is the text before
  the first fence, and the match ends behind that fence.
\<close>

fun until_fence :: "js_string \<Rightarrow> (js_string \<times> js_string) option" where
  "until_fence [] = None"
| "until_fence (c # cs) =
     (case strip_prefix fence (c # cs) of
        Some rest \<Rightarrow> Some ([], rest)
      | None \<Rightarrow> (case until_fence cs of None \<Rightarrow> None | Some (body, rest) \<Rightarrow> Some (c # body, rest)))"

text \<open>
  The expression matched at the start of \<open>s\<close>: the literal, then \<open>\s+\<close>, which is greedy
  and takes every space that follows, then the group. Backtracking into \<open>\s+\<close> finds
  nothing more: a space given back goes to the group, and the closing fence, which starts
  with a backquote, matches at the same places as before. The result is the group and the
  text behind the match.
\<close>

definition match_here :: "js_string \<Rightarrow> (js_string \<times> js_string) option" where
  "match_here s =
     (case strip_prefix (str ''```dataview'') s of
        None \<Rightarrow> None
      | Some r \<Rightarrow> if takeWhile is_space r = [] then None else until_fence (dropWhile is_space r))"

text \<open>
  What the expression says, read as a set of strings: \<open>s\<close> is the literal, one or more
  spaces \<open>ws\<close>, a group \<open>body\<close>, the closing fence, and the text \<open>rest\<close> behind the
  match. A backtracking matcher tries the longest \<open>ws\<close> first and, for each, the
  shortest \<open>body\<close> first; \<open>match_here\<close> is compared with this in the second chapter.
\<close>

definition regex_match :: "js_string \<Rightarrow> js_string \<Rightarrow> js_string \<Rightarrow> js_string \<Rightarrow> bool" where
  "regex_match s ws body rest \<longleftrightarrow>
     s = str ''```dataview'' @ ws @ body @ fence @ rest \<and> ws \<noteq> [] \<and> (\<forall>c \<in> set ws. is_space c)"

text \<open>
  \<open>dataviewRegex.exec(content)\<close>, with \<open>s\<close> the content from \<open>lastIndex\<close> on: the first
  place where the expression matches. The text behind the match is the content from the
  new \<open>lastIndex\<close> on.
\<close>

fun regex_exec :: "js_string \<Rightarrow> (js_string \<times> js_string) option" where
  "regex_exec [] = None"
| "regex_exec (c # cs) = (case match_here (c # cs) of Some m \<Rightarrow> Some m | None \<Rightarrow> regex_exec cs)"

lemma strip_prefix_length: "strip_prefix p s = Some r \<Longrightarrow> length s = length p + length r"
  by (induction p s rule: strip_prefix.induct) (auto split: if_splits)

lemma until_fence_length: "until_fence s = Some (b, r) \<Longrightarrow> length r < length s"
proof (induction s arbitrary: b)
  case Nil
  then show ?case by simp
next
  case (Cons c cs)
  show ?case
  proof (cases "strip_prefix fence (c # cs)")
    case None
    with Cons.prems obtain b' where "until_fence cs = Some (b', r)"
      by (auto split: option.splits)
    then have "length r < length cs" by (rule Cons.IH)
    then show ?thesis by simp
  next
    case (Some rest)
    with Cons.prems have "rest = r" by simp
    with Some have "length (c # cs) = length fence + length r"
      using strip_prefix_length by blast
    then show ?thesis by (simp add: fence_def str_def)
  qed
qed

lemma match_here_length: "match_here s = Some (b, r) \<Longrightarrow> length r < length s"
proof -
  assume a: "match_here s = Some (b, r)"
  then obtain t where t: "strip_prefix (str ''```dataview'') s = Some t"
    and u: "until_fence (dropWhile is_space t) = Some (b, r)"
    by (auto simp: match_here_def split: option.splits if_splits)
  have "length r < length (dropWhile is_space t)"
    using u by (rule until_fence_length)
  also have "\<dots> \<le> length t"
    by (rule length_dropWhile_le)
  also have "\<dots> \<le> length s"
    using strip_prefix_length [OF t] by simp
  finally show ?thesis .
qed

lemma regex_exec_length: "regex_exec s = Some (b, r) \<Longrightarrow> length r < length s"
proof (induction s)
  case Nil
  then show ?case by simp
next
  case (Cons c cs)
  show ?case
  proof (cases "match_here (c # cs)")
    case None
    with Cons.prems have "regex_exec cs = Some (b, r)" by simp
    then have "length r < length cs" by (rule Cons.IH)
    then show ?thesis by simp
  next
    case (Some m)
    with Cons.prems have "match_here (c # cs) = Some (b, r)" by simp
    then show ?thesis by (rule match_here_length)
  qed
qed

text \<open>
  The groups of all the matches, one \<open>exec\<close> after the other until it gives \<open>null\<close>:
  the blocks the expression matches in the content.
\<close>

function all_matches :: "js_string \<Rightarrow> js_string list" where
  "all_matches s =
     (case regex_exec s of None \<Rightarrow> [] | Some (queryContent, rest) \<Rightarrow> queryContent # all_matches rest)"
  by pat_completeness auto
termination
  by (relation "measure length") (auto dest: regex_exec_length)

subsection \<open>extractQueries\<close>

text \<open>
  \<^verbatim>\<open>interface DataviewQuery { type: string; source: string; id: string; }\<close>
\<close>

record DataviewQuery =
  query_type :: string
  query_source :: js_string
  query_id :: js_string

text \<open>A length in a template literal: its decimal digits.\<close>

function decimal :: "nat \<Rightarrow> js_string" where
  "decimal n = (if n < 10 then [48 + n] else decimal (n div 10) @ [48 + n mod 10])"
  by pat_completeness auto
termination
  by (relation "measure (\<lambda>n. n)") auto

text \<open>
  \<^verbatim>\<open>
  while ((match = dataviewRegex.exec(content)) !== null) {
    const queryContent = match[1];
    const id = `query-${extractedQueries.length}`;
    if (queryContent.includes('TABLE')) {
      extractedQueries.push({ type: 'table', source: queryContent, id });
    } else if (queryContent.includes('LIST')) {
      extractedQueries.push({ type: 'list', source: queryContent, id });
    }
  }
  setQueries(extractedQueries);
  \<close>
\<close>

function extract_loop :: "js_string \<Rightarrow> DataviewQuery list \<Rightarrow> DataviewQuery list" where
  "extract_loop s extractedQueries =
     (case regex_exec s of
        None \<Rightarrow> extractedQueries
      | Some (queryContent, rest) \<Rightarrow>
          (let id = str ''query-'' @ decimal (length extractedQueries) in
           if str_includes queryContent (str ''TABLE'')
           then extract_loop rest
                  (extractedQueries @ [\<lparr>query_type = ''table'', query_source = queryContent, query_id = id\<rparr>])
           else if str_includes queryContent (str ''LIST'')
           then extract_loop rest
                  (extractedQueries @ [\<lparr>query_type = ''list'', query_source = queryContent, query_id = id\<rparr>])
           else extract_loop rest extractedQueries))"
  by pat_completeness auto
termination
  by (relation "measure (\<lambda>(s, acc). length s)") (auto dest: regex_exec_length)

definition extractQueries :: "js_string \<Rightarrow> DataviewQuery list" where
  "extractQueries content = extract_loop content []"

text \<open>
  The recursive equations of the three loops are used where a proof asks for them, not by
  the simplifier on its own.
\<close>

declare decimal.simps [simp del] extract_loop.simps [simp del] all_matches.simps [simp del]

text \<open>
  For the statements about \<open>extractQueries\<close>: the test that lets a matched block through,
  and the queries made of a list of blocks, numbered from \<open>n\<close> on.
\<close>

definition keeps :: "js_string \<Rightarrow> bool" where
  "keeps queryContent \<longleftrightarrow>
     str_includes queryContent (str ''TABLE'') \<or> str_includes queryContent (str ''LIST'')"

fun numbered :: "nat \<Rightarrow> js_string list \<Rightarrow> DataviewQuery list" where
  "numbered n [] = []"
| "numbered n (b # bs) =
     \<lparr>query_type = (if str_includes b (str ''TABLE'') then ''table'' else ''list''),
      query_source = b, query_id = str ''query-'' @ decimal n\<rparr> # numbered (Suc n) bs"

subsection \<open>executeQueries\<close>

text \<open>
  \<^verbatim>\<open>interface DataviewResult { id: string; columns: string[]; data: any[][]; error?: string; }\<close>
  The data of a response: \<open>columns\<close> and \<open>data\<close>, either of which may be missing.
\<close>

record DataviewResult =
  result_id :: js_string
  result_columns :: "json list"
  result_data :: "json list list"
  result_error :: "string option"

record dataview_data =
  data_columns :: "json list option"
  data_data :: "json list list option"

text \<open>
  The body of the loop for one query, given the backend's answer to its request:
  \<^verbatim>\<open>
  try {
    const response = await axios.post('/api/dataview/execute', {...});
    queryResults[query.id] = { id: query.id,
      columns: response.data.columns || [], data: response.data.data || [] };
  } catch (err: any) {
    queryResults[query.id] = { id: query.id, columns: [], data: [],
      error: err.response?.data?.error || 'Failed to execute query' };
  }
  \<close>
\<close>

definition query_result :: "DataviewQuery \<Rightarrow> dataview_data answer \<Rightarrow> DataviewResult" where
  "query_result query a =
     (case a of
        Ok d \<Rightarrow>
          \<lparr>result_id = query_id query,
           result_columns = (case data_columns d of None \<Rightarrow> [] | Some cs \<Rightarrow> cs),
           result_data = (case data_data d of None \<Rightarrow> [] | Some rows \<Rightarrow> rows),
           result_error = None\<rparr>
      | Failed err \<Rightarrow>
          \<lparr>result_id = query_id query, result_columns = [], result_data = [],
           result_error = Some (or_else (response_error err) ''Failed to execute query'')\<rparr>)"

text \<open>
  \<open>for (const query of queries) { ... }\<close>: \<open>backend n\<close> is the answer to the \<open>n\<close>-th
  request of the run; the loop carries \<open>queryResults\<close> and, for the model, the requests
  sent so far.
\<close>

fun execute_loop ::
  "(nat \<Rightarrow> dataview_data answer) \<Rightarrow> js_string \<Rightarrow> nat \<Rightarrow> DataviewQuery list \<Rightarrow>
   (js_string \<rightharpoonup> DataviewResult) \<Rightarrow> request list \<Rightarrow> (js_string \<rightharpoonup> DataviewResult) \<times> request list" where
  "execute_loop backend filePath n [] queryResults sent = (queryResults, sent)"
| "execute_loop backend filePath n (query # rest) queryResults sent =
     execute_loop backend filePath (Suc n) rest
       (queryResults(query_id query \<mapsto> query_result query (backend n)))
       (sent @ [DataView_execute (query_source query) filePath])"

text \<open>The state hooks \<open>queries\<close>, \<open>results\<close>, \<open>loading\<close>, \<open>error\<close> of the component.\<close>

record dataview_state =
  queries :: "DataviewQuery list"
  results :: "js_string \<rightharpoonup> DataviewResult"
  dv_loading :: bool
  dv_error :: "string option"

text \<open>
  \<^verbatim>\<open>
  const executeQueries = async () => {
    setLoading(true);
    try {
      const queryResults: Record<string, DataviewResult> = {};
      for (const query of queries) { ... }
      setResults(queryResults);
      setError(null);
    } catch (err) { setError('Failed to process dataview queries'); }
    finally { setLoading(false); }
  };
  \<close>
  Every failure inside the loop is caught inside the loop, so the outer \<open>catch\<close> has
  nothing to catch. The result is the state when the call has finished, and the requests
  it sent, in order.
\<close>

definition executeQueries ::
  "(nat \<Rightarrow> dataview_data answer) \<Rightarrow> js_string \<Rightarrow> dataview_state \<Rightarrow> dataview_state \<times> request list" where
  "executeQueries backend filePath st =
     (let (queryResults, sent) = execute_loop backend filePath 0 (queries st) Map.empty []
      in (st\<lparr>results := queryResults, dv_error := None, dv_loading := False\<rparr>, sent))"

text \<open>
  The two effects of the component, run when \<open>content\<close> changes:
  \<^verbatim>\<open>
  useEffect(() => { extractQueries(); }, [content]);
  useEffect(() => { if (queries.length > 0) { executeQueries(); } }, [queries]);
  \<close>
\<close>

definition DataView_content ::
  "(nat \<Rightarrow> dataview_data answer) \<Rightarrow> js_string \<Rightarrow> js_string \<Rightarrow> dataview_state \<Rightarrow> dataview_state \<times> request list" where
  "DataView_content backend filePath content st =
     (let st1 = st\<lparr>queries := extractQueries content\<rparr>
      in if length (queries st1) > 0 then executeQueries backend filePath st1 else (st1, []))"


section \<open>Debounced input: Search (src/src/search.tsx) and Editor (src/unnamed/part_000)\<close>

subsection \<open>The hook useDebounce\<close>

text \<open>
  Modelled from the spec: the hook \<open>useDebounce\<close>, which both components import from
  \<open>../hooks/useDebounce\<close> and which is not among the sources. The spec says of it: "a
  debounce delays auto-save and search input by a fixed interval". So the hook returns
  \<open>debouncedValue\<close>, which takes the value \<open>val\<close> of its argument once the argument has
  stayed the same for \<open>delay\<close> milliseconds; a change of the argument starts the interval
  anew. Time is counted in milliseconds: \<open>timer\<close> holds what is left of a running
  interval, and a tick is one millisecond passing. \<open>unchanged\<close> is not state of the hook
  but a clock for the statements: the milliseconds since the argument last changed.
\<close>

record 'a debounce =
  val :: 'a
  debouncedValue :: 'a
  timer :: "nat option"
  unchanged :: nat

text \<open>
  Modelled from the spec: \<open>useDebounce\<close> when the component is mounted. Nothing has been
  delayed yet, so the hook returns its argument.
\<close>

definition useDebounce_mount :: "'a \<Rightarrow> 'a debounce" where
  "useDebounce_mount v = \<lparr>val = v, debouncedValue = v, timer = None, unchanged = 0\<rparr>"

text \<open>
  Modelled from the spec: \<open>useDebounce(v, delay)\<close> at a render. An argument that differs
  from the last one starts the interval anew; the value returned stays as it is.
\<close>

definition useDebounce_render :: "nat \<Rightarrow> 'a \<Rightarrow> 'a debounce \<Rightarrow> 'a debounce" where
  "useDebounce_render delay v d =
     (if v = val d then d else d\<lparr>val := v, timer := Some delay, unchanged := 0\<rparr>)"

text \<open>
  Modelled from the spec: \<open>useDebounce\<close> when a millisecond passes. When the interval
  runs out, the value returned becomes the argument.
\<close>

definition useDebounce_tick :: "'a debounce \<Rightarrow> 'a debounce" where
  "useDebounce_tick d =
     (case timer d of
        None \<Rightarrow> d\<lparr>unchanged := unchanged d + 1\<rparr>
      | Some r \<Rightarrow>
          if r \<le> 1 then d\<lparr>debouncedValue := val d, timer := None, unchanged := unchanged d + 1\<rparr>
          else d\<lparr>timer := Some (r - 1), unchanged := unchanged d + 1\<rparr>)"

subsection \<open>Search\<close>

text \<open>
  \<^verbatim>\<open>
  const [query, setQuery] = useState('');
  const [searchOptions, setSearchOptions] =
    useState({ case_sensitive: false, regex: false, sort_by: 'relevance' });
  const debouncedQuery = useDebounce(query, 300);
  \<close>
  The field \<open>search_query\<close> holds the hook: its \<open>val\<close> is the state \<open>query\<close>, its
  \<open>debouncedValue\<close> is \<open>debouncedQuery\<close>.
\<close>

record search_state =
  search_query :: "js_string debounce"
  searchOptions :: searchOptions

definition Search_mount :: search_state where
  "Search_mount =
     \<lparr>search_query = useDebounce_mount [],
      searchOptions = \<lparr>case_sensitive = False, regex = False, sort_by = str ''relevance''\<rparr>\<rparr>"

text \<open>
  The component sends two kinds of request: \<open>SearchPost r\<close> is the search request
  \<open>axios.post('/api/search/query', ...)\<close> of \<open>performSearch\<close>, and \<open>SuggestionsGet u\<close>
  is \<open>axios.get(u)\<close> of \<open>fetchSuggestions\<close>, with the URL \<open>u\<close> in code units, as the
  input is spliced into it.
\<close>

datatype search_sent = SearchPost request | SuggestionsGet js_string

text \<open>
  \<^verbatim>\<open>
  const performSearch = async () => {
    if (!debouncedQuery) return;
    ...
      const response = await axios.post('/api/search/query', {...});
  \<close>
\<close>

definition performSearch :: "search_state \<Rightarrow> search_sent list" where
  "performSearch s =
     (if debouncedValue (search_query s) = [] then []
      else [SearchPost (performSearch_request (debouncedValue (search_query s)) (searchOptions s))])"

text \<open>
  \<^verbatim>\<open>
  useEffect(() => {
    if (debouncedQuery.length > 2) { performSearch(); } else { setResults([]); }
  }, [debouncedQuery, searchOptions]);
  \<close>
\<close>

definition search_effect :: "search_state \<Rightarrow> search_sent list" where
  "search_effect s = (if length (debouncedValue (search_query s)) > 2 then performSearch s else [])"

text \<open>
  \<^verbatim>\<open>
  const fetchSuggestions = async () => {
    try {
      const response = await axios.get(`/api/search/suggestions?query=${query}`);
  \<close>
\<close>

definition fetchSuggestions :: "search_state \<Rightarrow> search_sent list" where
  "fetchSuggestions s = [SuggestionsGet (str ''/api/search/suggestions?query='' @ val (search_query s))]"

text \<open>
  \<^verbatim>\<open>
  useEffect(() => {
    if (query.length > 1) { fetchSuggestions(); } else { setSuggestions([]); }
  }, [query]);
  \<close>
\<close>

definition suggestions_effect :: "search_state \<Rightarrow> search_sent list" where
  "suggestions_effect s = (if length (val (search_query s)) > 1 then fetchSuggestions s else [])"

text \<open>
  What happens to the component, and the requests each event sends. An effect runs
  after a render in which one of its dependencies has changed.

  \<^item> \<open>Keystroke q\<close> is \<open>setQuery(q)\<close>, from
    \<open>onChange={(e) => setQuery(e.target.value)}\<close> or from \<open>applySuggestion\<close>. When it
    changes \<open>query\<close>, the effect on \<open>[query]\<close> runs and fetches suggestions, undebounced.
    It changes neither \<open>debouncedQuery\<close> nor \<open>searchOptions\<close>, so the search effect does
    not run.
  \<^item> \<open>SearchTick\<close> is a millisecond passing. It runs the search effect when it changes
    \<open>debouncedQuery\<close>; \<open>query\<close> stays the same.
  \<^item> \<open>Options opts\<close>: the three controls of the options call \<open>setSearchOptions\<close> with a
    new object, so the search effect runs.
  \<^item> \<open>ClickSearch\<close> is the button
    \<^verbatim>\<open><button onClick={performSearch} disabled={debouncedQuery.length < 2}>\<close>
\<close>

datatype search_event = Keystroke js_string | SearchTick | Options searchOptions | ClickSearch

fun Search_step :: "search_state \<Rightarrow> search_event \<Rightarrow> search_state \<times> search_sent list" where
  "Search_step s (Keystroke q) =
     (let s1 = s\<lparr>search_query := useDebounce_render 300 q (search_query s)\<rparr>
      in (s1, if q \<noteq> val (search_query s) then suggestions_effect s1 else []))"
| "Search_step s SearchTick =
     (let s1 = s\<lparr>search_query := useDebounce_tick (search_query s)\<rparr>
      in (s1, if debouncedValue (search_query s1) \<noteq> debouncedValue (search_query s) then search_effect s1 else []))"
| "Search_step s (Options opts) = (let s1 = s\<lparr>searchOptions := opts\<rparr> in (s1, search_effect s1))"
| "Search_step s ClickSearch =
     (s, if length (debouncedValue (search_query s)) < 2 then [] else performSearch s)"

text \<open>The component after a sequence of events since it was mounted.\<close>

definition Search_run :: "search_event list \<Rightarrow> search_state" where
  "Search_run es = foldl (\<lambda>s e. fst (Search_step s e)) Search_mount es"

subsection \<open>Editor\<close>

text \<open>
  \<^verbatim>\<open>
  const Editor: React.FC<EditorProps> = ({ filePath, onSave }) => {
  const [content, setContent] = useState<string>('');
  const [originalContent, setOriginalContent] = useState<string>('');
  const [saving, setSaving] = useState<boolean>(false);
  const [loading, setLoading] = useState<boolean>(true);
  const [error, setError] = useState<string | null>(null);
  const debouncedContent = useDebounce(content, 1000);
  \<close>
  The field \<open>editor_content\<close> holds the hook: its \<open>val\<close> is the state \<open>content\<close>, its
  \<open>debouncedValue\<close> is \<open>debouncedContent\<close>. \<open>saving\<close> is \<open>Some c\<close> while the flag
  \<open>saving\<close> is set, \<open>c\<close> being the content of the save request on its way.
  \<open>editor_filePath\<close> is the prop \<open>filePath\<close>. \<open>fetching\<close> is not state of the
  component: it counts the requests \<open>axios.get('/api/files/content?path=...')\<close> of
  \<open>fetchContent\<close> that are on their way.
\<close>

record editor_state =
  editor_content :: "js_string debounce"
  originalContent :: js_string
  saving :: "js_string option"
  editor_filePath :: js_string
  editor_loading :: bool
  editor_error :: "string option"
  fetching :: nat

text \<open>
  The component when it is mounted, after its effects have run. The effect that loads the
  file sends its request unless \<open>filePath\<close> is empty; the auto-save effect does nothing,
  \<open>debouncedContent\<close> being empty. (The application is rendered inside
  \<open>React.StrictMode\<close>, src/unnamed/part_001, which in a development build runs the
  effects of a mount twice; this is the production build, where they run once.)
  \<^verbatim>\<open>
  useEffect(() => {
    if (!filePath) return;
    const fetchContent = async () => {
      setLoading(true);
      try {
        const response = await axios.get(`/api/files/content?path=${encodeURIComponent(filePath)}`);
        setContent(response.data.content);
        setOriginalContent(response.data.content);
        setError(null);
      } catch (err) { setError('Failed to load file content'); }
      finally { setLoading(false); }
    };
    fetchContent();
  }, [filePath]);
  \<close>
\<close>

definition Editor_mount :: "js_string \<Rightarrow> editor_state" where
  "Editor_mount path =
     \<lparr>editor_content = useDebounce_mount [], originalContent = [], saving = None, editor_filePath = path,
      editor_loading = True, editor_error = None, fetching = (if path = [] then 0 else 1)\<rparr>"

text \<open>
  \<^verbatim>\<open>
  const saveContent = async (contentToSave: string) => {
    if (!filePath || saving) return;
    setSaving(true);
    try {
      await axios.post('/api/files/save', { path: filePath, content: contentToSave });
      setOriginalContent(contentToSave);
      if (onSave) onSave(contentToSave);
    } catch (err) { setError('Failed to save changes'); }
    finally { setSaving(false); }
  };
  \<close>
  The part up to the request:
\<close>

definition save_request :: "js_string \<Rightarrow> js_string \<Rightarrow> request" where
  "save_request path contentToSave =
     axios_post ''/api/files/save'' (JObject [(''path'', JString path), (''content'', JString contentToSave)])"

definition saveContent :: "js_string \<Rightarrow> editor_state \<Rightarrow> editor_state \<times> request list" where
  "saveContent contentToSave s =
     (if editor_filePath s = [] \<or> saving s \<noteq> None then (s, [])
      else (s\<lparr>saving := Some contentToSave\<rparr>, [save_request (editor_filePath s) contentToSave]))"

text \<open>
  \<^verbatim>\<open>
  useEffect(() => {
    if (debouncedContent && debouncedContent !== originalContent) {
      saveContent(debouncedContent);
    }
  }, [debouncedContent, originalContent]);
  \<close>
\<close>

definition autosave_effect :: "editor_state \<Rightarrow> editor_state \<times> request list" where
  "autosave_effect s =
     (if debouncedValue (editor_content s) \<noteq> [] \<and> debouncedValue (editor_content s) \<noteq> originalContent s
      then saveContent (debouncedValue (editor_content s)) s else (s, []))"

text \<open>
  The editing area is on the screen only when the file has been loaded and nothing has
  failed (both messages that \<open>setError\<close> is given are non-empty, so \<open>error\<close> is truthy
  exactly when it is set):
  \<^verbatim>\<open>
  if (loading) { return <div ...>Loading...</div>; }
  if (error) { return <div ...>{error}</div>; }
  return ( ... <MonacoEditor ... value={content} onChange={handleEditorChange} /> ... );
  \<close>
\<close>

definition editable :: "editor_state \<Rightarrow> bool" where
  "editable s = (\<not> editor_loading s \<and> editor_error s = None)"

text \<open>
  What happens to the component, and the save requests each event sends. The effects
  run after a render in which one of their dependencies has changed; the state changes of
  one continuation of a promise are rendered together (React 18, \<open>createRoot\<close>).

  \<^item> \<open>Edit v\<close> is \<open>handleEditorChange(v)\<close>, which sets \<open>content\<close>; it can happen only
    while the editing area is on the screen, and is without effect here otherwise.
  \<^item> \<open>EditorTick\<close> is a millisecond passing.
  \<^item> \<open>FilePath p\<close> is the parent rendering the component with another \<open>filePath\<close>:
    the effect on \<open>[filePath]\<close> runs and, unless \<open>p\<close> is empty, sets \<open>loading\<close> and
    sends the request for the content.
  \<^item> \<open>Loaded c\<close> is a request for the content coming back with \<open>c\<close>: \<open>setContent\<close>,
    \<open>setOriginalContent\<close>, \<open>setError(null)\<close> and \<open>setLoading(false)\<close>. It can happen only
    when such a request is on its way.
  \<^item> \<open>LoadFailed\<close> is such a request failing: \<open>setError\<close> and \<open>setLoading(false)\<close>.
  \<^item> \<open>SaveSettled ok\<close> is the save request on its way coming back:
    \<open>setOriginalContent\<close> and \<open>setSaving(false)\<close> when it succeeded, \<open>setError\<close> and
    \<open>setSaving(false)\<close> when it failed.
\<close>

datatype editor_event =
    Edit js_string
  | EditorTick
  | FilePath js_string
  | Loaded js_string
  | LoadFailed
  | SaveSettled bool

fun Editor_step :: "editor_state \<Rightarrow> editor_event \<Rightarrow> editor_state \<times> request list" where
  "Editor_step s (Edit v) =
     (if editable s then (s\<lparr>editor_content := useDebounce_render 1000 v (editor_content s)\<rparr>, [])
      else (s, []))"
| "Editor_step s EditorTick =
     (let s1 = s\<lparr>editor_content := useDebounce_tick (editor_content s)\<rparr>
      in if debouncedValue (editor_content s1) \<noteq> debouncedValue (editor_content s) then autosave_effect s1 else (s1, []))"
| "Editor_step s (FilePath p) =
     (if p = editor_filePath s then (s, [])
      else if p = [] then (s\<lparr>editor_filePath := p\<rparr>, [])
      else (s\<lparr>editor_filePath := p, editor_loading := True, fetching := fetching s + 1\<rparr>, []))"
| "Editor_step s (Loaded c) =
     (if fetching s = 0 then (s, [])
      else
        (let s1 = s\<lparr>editor_content := useDebounce_render 1000 c (editor_content s), originalContent := c,
                     editor_error := None, editor_loading := False, fetching := fetching s - 1\<rparr>
         in if c \<noteq> originalContent s then autosave_effect s1 else (s1, [])))"
| "Editor_step s LoadFailed =
     (if fetching s = 0 then (s, [])
      else (s\<lparr>editor_error := Some ''Failed to load file content'', editor_loading := False,
               fetching := fetching s - 1\<rparr>, []))"
| "Editor_step s (SaveSettled ok) =
     (case saving s of
        None \<Rightarrow> (s, [])
      | Some contentToSave \<Rightarrow>
          if ok then
            (let s1 = s\<lparr>originalContent := contentToSave, saving := None\<rparr>
             in if contentToSave \<noteq> originalContent s then autosave_effect s1 else (s1, []))
          else (s\<lparr>saving := None, editor_error := Some ''Failed to save changes''\<rparr>, []))"

text \<open>The component after a sequence of events since it was mounted with \<open>filePath = path\<close>.\<close>

definition Editor_run :: "js_string \<Rightarrow> editor_event list \<Rightarrow> editor_state" where
  "Editor_run path es = foldl (\<lambda>s e. fst (Editor_step s e)) (Editor_mount path) es"

text \<open>The events that leave the prop \<open>filePath\<close> as it is: all but \<open>FilePath\<close>.\<close>

fun keeps_file :: "editor_event \<Rightarrow> bool" where
  "keeps_file (FilePath p) = False"
| "keeps_file e = True"

text \<open>
  A running interval and the clock agree: what is left and what has passed add up to the
  delay.
\<close>

definition timer_ok :: "nat \<Rightarrow> 'a debounce \<Rightarrow> bool" where
  "timer_ok delay d = (case timer d of None \<Rightarrow> True | Some r \<Rightarrow> 0 < r \<and> r + unchanged d = delay)"

text \<open>
  As long as the prop \<open>filePath\<close> stays the same, at most one request for the content is
  on its way, the one sent when the component was mounted; until it is back, the
  component shows \<open>Loading...\<close> and the content is empty.
\<close>

definition first_load :: "editor_state \<Rightarrow> bool" where
  "first_load s =
     (fetching s \<le> 1
      \<and> (fetching s = 1 \<longrightarrow>
            editor_loading s \<and> val (editor_content s) = [] \<and> debouncedValue (editor_content s) = []))"


section \<open>Concrete inputs\<close>

text \<open>
  A user, a rejection with status 401, and a client in which that user is signed in and
  is editing a file.
\<close>

definition alice :: User where
  "alice = \<lparr>username = ''alice'', email = None, full_name = None, disabled = None\<rparr>"

definition unauthorized :: http_error where
  "unauthorized = \<lparr>response_status = Some 401, response_detail = None, response_error = None\<rparr>"

definition signed_in :: client where
  "signed_in =
     (fresh [''token'' \<mapsto> ''abc''] ''/editor/notes.md'')\<lparr>user := Some alice, auth_isLoading := False\<rparr>"

text \<open>
  Two documents: one with a single dataview block that asks for tasks, one with a table
  block and a list block. A backend whose first answer is a failure without a response
  and whose other answers are a table of one column and no rows. A dataview panel that
  has not run yet.
\<close>

definition task_document :: js_string where
  "task_document = str ''```dataview\<newline>TASK\<newline>```''"

definition two_query_document :: js_string where
  "two_query_document = str ''```dataview TABLE a``` and ```dataview LIST b```''"

definition no_response :: http_error where
  "no_response = \<lparr>response_status = None, response_detail = None, response_error = None\<rparr>"

definition first_fails :: "nat \<Rightarrow> dataview_data answer" where
  "first_fails n =
     (if n = 0 then Failed no_response
      else Ok \<lparr>data_columns = Some [JString (str ''file'')], data_data = None\<rparr>)"

definition empty_panel :: dataview_state where
  "empty_panel = \<lparr>queries = [], results = Map.empty, dv_loading = False, dv_error = None\<rparr>"

text \<open>
  Typing \<open>abc\<close> into the search field and waiting 299 ms, the state one tick later, and
  the same followed by that tick and another keystroke.
\<close>

definition keystrokes_then_wait :: "search_event list" where
  "keystrokes_then_wait = Keystroke (str ''abc'') # replicate 299 SearchTick"

definition searching_abc :: search_state where
  "searching_abc =
     Search_mount\<lparr>search_query := \<lparr>val = str ''abc'', debouncedValue = str ''abc'', timer = None, unchanged = 300\<rparr>\<rparr>"

definition keystroke_after_search :: "search_event list" where
  "keystroke_after_search = keystrokes_then_wait @ [SearchTick, Keystroke (str ''abcd'')]"

text \<open>
  The editor of \<open>notes.md\<close>, an empty file, once the file has been loaded; typing \<open>ab\<close>
  into it and waiting 999 ms, and the state one tick later.
\<close>

definition notes_opened :: editor_state where
  "notes_opened = (Editor_mount (str ''notes.md''))\<lparr>editor_loading := False, fetching := 0\<rparr>"

definition edits_then_wait :: "editor_event list" where
  "edits_then_wait = [Loaded [], Edit (str ''ab'')] @ replicate 999 EditorTick"

definition saving_ab :: editor_state where
  "saving_ab =
     notes_opened
       \<lparr>editor_content := \<lparr>val = str ''ab'', debouncedValue = str ''ab'', timer = None, unchanged = 1000\<rparr>,
        saving := Some (str ''ab'')\<rparr>"

text \<open>
  The same edits in the editor, followed by the tick that sends the save of \<open>ab\<close>, then
  a \<open>c\<close>, a second of waiting and a \<open>d\<close>, all while that save is on its way.
\<close>

definition edits_during_save :: "editor_event list" where
  "edits_during_save =
     edits_then_wait @ [EditorTick, Edit (str ''abc'')] @ replicate 999 EditorTick
       @ [EditorTick, Edit (str ''abcd'')]"

text \<open>
  The editor of \<open>notes.md\<close> after \<open>ab\<close> has been typed and saved, and then the parent
  showing \<open>todo.md\<close> in the same editor.
\<close>

definition edits_then_other_file :: "editor_event list" where
  "edits_then_other_file =
     edits_then_wait @ [EditorTick, SaveSettled True, FilePath (str ''todo.md'')]"

text \<open>A stand-in for a sanitizer, which drops the angle brackets.\<close>

definition strip_tags :: "string \<Rightarrow> string" where
  "strip_tags h = filter (\<lambda>c. c \<noteq> CHR ''<'' \<and> c \<noteq> CHR ''>'') h"


chapter \<open>Properties\<close>

section \<open>The zoom scale stays within its bounds\<close>

lemma handleZoomIn_upper: "handleZoomIn rnd tenth s \<le> 2"
  by (simp add: handleZoomIn_def)

lemma handleZoomOut_lower: "1 / 2 \<le> handleZoomOut rnd tenth s"
  by (simp add: handleZoomOut_def)

lemma handleZoomIn_lower:
  assumes "double_rounding rnd tenth" and "1 / 2 \<le> s"
  shows "1 / 2 \<le> handleZoomIn rnd tenth s"
proof -
  have "1 / 2 \<le> s + tenth"
    using assms by (simp add: double_rounding_def)
  then have "rnd (1 / 2) \<le> rnd (s + tenth)"
    using assms(1) unfolding double_rounding_def by blast
  then have "1 / 2 \<le> rnd (s + tenth)"
    using assms(1) by (simp add: double_rounding_def)
  then show ?thesis
    by (simp add: handleZoomIn_def)
qed

lemma handleZoomOut_upper:
  assumes "double_rounding rnd tenth" and "s \<le> 2"
  shows "handleZoomOut rnd tenth s \<le> 2"
proof -
  have "s - tenth \<le> 2"
    using assms by (simp add: double_rounding_def)
  then have "rnd (s - tenth) \<le> rnd 2"
    using assms(1) unfolding double_rounding_def by blast
  then have "rnd (s - tenth) \<le> 2"
    using assms(1) by (simp add: double_rounding_def)
  then show ?thesis
    by (simp add: handleZoomOut_def)
qed

lemma click_bounds:
  assumes "double_rounding rnd tenth" and "1 / 2 \<le> s" and "s \<le> 2"
  shows "1 / 2 \<le> click rnd tenth s c \<and> click rnd tenth s c \<le> 2"
proof (cases c)
  case ZoomIn
  then show ?thesis
    using assms handleZoomIn_lower handleZoomIn_upper by simp
next
  case ZoomOut
  then show ?thesis
    using assms handleZoomOut_lower handleZoomOut_upper by simp
next
  case ZoomReset
  then show ?thesis
    by (simp add: handleZoomReset_def)
qed

lemma foldl_zoom_bounds:
  assumes "double_rounding rnd tenth"
  shows "1 / 2 \<le> s \<Longrightarrow> s \<le> 2 \<Longrightarrow>
    1 / 2 \<le> foldl (click rnd tenth) s clicks \<and> foldl (click rnd tenth) s clicks \<le> 2"
proof (induction clicks arbitrary: s)
  case Nil
  then show ?case by simp
next
  case (Cons c clicks)
  have "1 / 2 \<le> click rnd tenth s c \<and> click rnd tenth s c \<le> 2"
    using assms Cons.prems by (rule click_bounds)
  then show ?case
    using Cons.IH by simp
qed

text \<open>
  Claim C10. Starting from the initial scale 1.0, after any sequence of zoom-in, zoom-out
  and zoom-reset clicks the scale lies in the closed interval from 0.5 to 2.0; a zoom-in
  never gives a scale above 2.0 and a zoom-out never gives one below 0.5, whatever the
  scale before.
\<close>

theorem zoom_scale_in_range:
  assumes "double_rounding rnd tenth"
  shows "1 / 2 \<le> scale_after rnd tenth clicks \<and> scale_after rnd tenth clicks \<le> 2
    \<and> handleZoomIn rnd tenth s \<le> 2 \<and> 1 / 2 \<le> handleZoomOut rnd tenth t"
proof -
  have "1 / 2 \<le> initial_scale" and "initial_scale \<le> 2"
    by (simp_all add: initial_scale_def)
  then have "1 / 2 \<le> scale_after rnd tenth clicks \<and> scale_after rnd tenth clicks \<le> 2"
    unfolding scale_after_def using foldl_zoom_bounds [OF assms] by blast
  then show ?thesis
    using handleZoomIn_upper handleZoomOut_lower by blast
qed

theorem zoom_scale_in_range_witness:
  "double_rounding (\<lambda>x. x) (1 / 10)
   \<and> 1 / 2 \<le> scale_after (\<lambda>x. x) (1 / 10) [ZoomOut, ZoomOut, ZoomOut, ZoomOut, ZoomOut, ZoomOut]
   \<and> scale_after (\<lambda>x. x) (1 / 10) [ZoomOut, ZoomOut, ZoomOut, ZoomOut, ZoomOut, ZoomOut] \<le> 2
   \<and> handleZoomIn (\<lambda>x. x) (1 / 10) 2 \<le> 2
   \<and> 1 / 2 \<le> handleZoomOut (\<lambda>x. x) (1 / 10) (1 / 2)"
proof -
  have h: "double_rounding (\<lambda>x. x) (1 / 10)"
    by (simp add: double_rounding_def)
  show ?thesis
    using h zoom_scale_in_range [OF h, of "[ZoomOut, ZoomOut, ZoomOut, ZoomOut, ZoomOut, ZoomOut]" 2 "1 / 2"]
    by simp
qed


section \<open>A drag moves one card and nothing else\<close>

lemma splice_remove_one:
  assumes "0 \<le> i" and "nat i < length xs"
  shows "array_splice xs i (Suc 0) [] = ([xs ! nat i], remove_at (nat i) xs)"
proof -
  have a: "splice_start (length xs) i = nat i"
    using assms by (simp add: splice_start_def)
  have "take 1 (drop (nat i) xs) = [xs ! nat i]"
    using assms(2) by (simp add: Cons_nth_drop_Suc[symmetric])
  then show ?thesis
    using assms(2) by (simp add: array_splice_def a remove_at_def Let_def)
qed

lemma splice_insert_at:
  assumes "0 \<le> j" and "nat j \<le> length ys"
  shows "snd (array_splice ys j 0 [x]) = insert_at (nat j) x ys"
  using assms by (simp add: array_splice_def splice_start_def Let_def insert_at_def)

lemma length_remove_at: "i < length xs \<Longrightarrow> length (remove_at i xs) = length xs - 1"
  by (simp add: remove_at_def)

text \<open>
  \<open>insert_at\<close> and \<open>remove_at\<close> do what their names say: the new element stands at place
  \<open>j\<close>, and taking it out again gives the list back.
\<close>

lemma insert_at_nth: "j \<le> length ys \<Longrightarrow> insert_at j x ys ! j = x"
  by (simp add: insert_at_def nth_append)

lemma remove_at_insert_at: "j \<le> length ys \<Longrightarrow> remove_at j (insert_at j x ys) = ys"
  by (simp add: remove_at_def insert_at_def)

lemma drag_noop:
  assumes "readOnly \<or> destination result = None
     \<or> (\<exists>dest. destination result = Some dest \<and> droppableId (source result) = droppableId dest
           \<and> index (source result) = index dest)"
  shows "handleDragEnd readOnly cb toMarkdown result st = Returned st []"
  using assms by (auto simp: handleDragEnd_def)

lemma drag_other_column:
  assumes "\<not> readOnly" and "destination result = Some dest"
    and "droppableId (source result) \<noteq> droppableId dest"
    and "columns st (droppableId (source result)) = Some sc"
    and "columns st (droppableId dest) = Some dc"
    and "0 \<le> index (source result)" and "nat (index (source result)) < length (items sc)"
    and "0 \<le> index dest" and "nat (index dest) \<le> length (items dc)"
  shows "board_after (handleDragEnd readOnly cb toMarkdown result st) =
    Some ((columns st)
      (droppableId (source result) \<mapsto> sc\<lparr>items := remove_at (nat (index (source result))) (items sc)\<rparr>,
       droppableId dest \<mapsto> dc\<lparr>items := insert_at (nat (index dest)) (items sc ! nat (index (source result))) (items dc)\<rparr>))"
  using assms
  by (simp add: handleDragEnd_def board_after_def splice_remove_one splice_insert_at
      Let_def split: option.splits)

lemma drag_same_column:
  assumes "\<not> readOnly" and "destination result = Some dest"
    and "droppableId (source result) = droppableId dest"
    and "index (source result) \<noteq> index dest"
    and "columns st (droppableId (source result)) = Some sc"
    and "0 \<le> index (source result)" and "nat (index (source result)) < length (items sc)"
    and "0 \<le> index dest" and "nat (index dest) \<le> length (remove_at (nat (index (source result))) (items sc))"
  shows "board_after (handleDragEnd readOnly cb toMarkdown result st) =
    Some ((columns st)
      (droppableId dest \<mapsto> sc\<lparr>items := insert_at (nat (index dest)) (items sc ! nat (index (source result)))
          (remove_at (nat (index (source result))) (items sc))\<rparr>))"
  using assms
  by (simp add: handleDragEnd_def board_after_def splice_remove_one splice_insert_at
      length_remove_at Let_def split: option.splits)

text \<open>
  Claim C1. When the board is not read-only and a card is dropped on a valid place (the
  source names a card of a column of the board, the destination a column of the board and
  a place among its cards), the card leaves its column at the source index and enters
  the destination column at the destination index; the other cards of both columns keep
  their order and every other column is as before. When the board is read-only, or the
  drop has no destination, or the destination is the place the card came from, the state
  is unchanged.
\<close>

theorem handleDragEnd_moves_card:
  fixes result :: drop_result and st :: kanban_state and dest :: location
    and sc dc :: KanbanColumn
  defines "sid \<equiv> droppableId (source result)" and "i \<equiv> nat (index (source result))"
    and "did \<equiv> droppableId dest" and "j \<equiv> nat (index dest)"
  shows
    "(\<not> readOnly \<and> destination result = Some dest
        \<and> \<not> (sid = did \<and> index (source result) = index dest)
        \<and> columns st sid = Some sc \<and> columns st did = Some dc
        \<and> 0 \<le> index (source result) \<and> i < length (items sc)
        \<and> 0 \<le> index dest
        \<and> j \<le> length (if sid = did then remove_at i (items sc) else items dc)
      \<longrightarrow> board_after (handleDragEnd readOnly cb toMarkdown result st) =
            Some (if sid = did
              then (columns st)(did \<mapsto> sc\<lparr>items := insert_at j (items sc ! i) (remove_at i (items sc))\<rparr>)
              else (columns st)(sid \<mapsto> sc\<lparr>items := remove_at i (items sc)\<rparr>,
                                did \<mapsto> dc\<lparr>items := insert_at j (items sc ! i) (items dc)\<rparr>)))
     \<and> (readOnly \<or> destination result = None
          \<or> (destination result = Some dest \<and> sid = did \<and> index (source result) = index dest)
      \<longrightarrow> handleDragEnd readOnly cb toMarkdown result st = Returned st [])"
proof (intro conjI impI)
  assume a: "\<not> readOnly \<and> destination result = Some dest
        \<and> \<not> (sid = did \<and> index (source result) = index dest)
        \<and> columns st sid = Some sc \<and> columns st did = Some dc
        \<and> 0 \<le> index (source result) \<and> i < length (items sc)
        \<and> 0 \<le> index dest
        \<and> j \<le> length (if sid = did then remove_at i (items sc) else items dc)"
  show "board_after (handleDragEnd readOnly cb toMarkdown result st) =
            Some (if sid = did
              then (columns st)(did \<mapsto> sc\<lparr>items := insert_at j (items sc ! i) (remove_at i (items sc))\<rparr>)
              else (columns st)(sid \<mapsto> sc\<lparr>items := remove_at i (items sc)\<rparr>,
                                did \<mapsto> dc\<lparr>items := insert_at j (items sc ! i) (items dc)\<rparr>))"
  proof (cases "sid = did")
    case True
    then show ?thesis
      using a drag_same_column [of readOnly result dest st sc cb toMarkdown]
      unfolding sid_def did_def i_def j_def by simp
  next
    case False
    then show ?thesis
      using a drag_other_column [of readOnly result dest st sc dc cb toMarkdown]
      unfolding sid_def did_def i_def j_def by simp
  qed
next
  assume "readOnly \<or> destination result = None
          \<or> (destination result = Some dest \<and> sid = did \<and> index (source result) = index dest)"
  then show "handleDragEnd readOnly cb toMarkdown result st = Returned st []"
    unfolding sid_def did_def by (intro drag_noop) blast
qed

text \<open>
  On the board with the columns todo = [a, b] and done = [c]: dragging \<open>a\<close> to the end of
  done gives todo = [b] and done = [c, a]; the same drag on a read-only board, and a drop
  outside every column, change nothing.
\<close>

theorem handleDragEnd_moves_card_witness:
  "board_after (handleDragEnd False True (\<lambda>cols. Some ''markdown'')
       \<lparr>source = place ''todo'' 0, destination = Some (place ''done'' 1)\<rparr>
       (board [(''todo'', [''a'', ''b'']), (''done'', [''c''])]))
     = Some (columns (board [(''done'', [''c'', ''a'']), (''todo'', [''b''])]))
   \<and> handleDragEnd True True (\<lambda>cols. Some ''markdown'')
       \<lparr>source = place ''todo'' 0, destination = Some (place ''done'' 1)\<rparr>
       (board [(''todo'', [''a'', ''b'']), (''done'', [''c''])])
     = Returned (board [(''todo'', [''a'', ''b'']), (''done'', [''c''])]) []
   \<and> handleDragEnd False True (\<lambda>cols. Some ''markdown'')
       \<lparr>source = place ''todo'' 0, destination = None\<rparr>
       (board [(''todo'', [''a'', ''b'']), (''done'', [''c''])])
     = Returned (board [(''todo'', [''a'', ''b'']), (''done'', [''c''])]) []"
proof -
  let ?st = "board [(''todo'', [''a'', ''b'']), (''done'', [''c''])]"
  let ?r = "\<lparr>source = place ''todo'' 0, destination = Some (place ''done'' 1)\<rparr>"
  let ?sc = "\<lparr>column_id = ''todo'', title = ''todo'', items = [card ''a'', card ''b'']\<rparr>"
  let ?dc = "\<lparr>column_id = ''done'', title = ''done'', items = [card ''c'']\<rparr>"
  have hyps: "\<not> False \<and> destination ?r = Some (place ''done'' 1)
      \<and> \<not> (droppableId (source ?r) = droppableId (place ''done'' 1)
            \<and> index (source ?r) = index (place ''done'' 1))
      \<and> columns ?st (droppableId (source ?r)) = Some ?sc
      \<and> columns ?st (droppableId (place ''done'' 1)) = Some ?dc
      \<and> 0 \<le> index (source ?r) \<and> nat (index (source ?r)) < length (items ?sc)
      \<and> 0 \<le> index (place ''done'' 1)
      \<and> nat (index (place ''done'' 1))
          \<le> length (if droppableId (source ?r) = droppableId (place ''done'' 1)
               then remove_at (nat (index (source ?r))) (items ?sc) else items ?dc)"
    by (simp add: board_def place_def)
  have moved: "board_after (handleDragEnd False True (\<lambda>cols. Some ''markdown'') ?r ?st) =
      Some (if droppableId (source ?r) = droppableId (place ''done'' 1)
        then (columns ?st)(droppableId (place ''done'' 1) \<mapsto>
          ?sc\<lparr>items := insert_at (nat (index (place ''done'' 1))) (items ?sc ! nat (index (source ?r)))
            (remove_at (nat (index (source ?r))) (items ?sc))\<rparr>)
        else (columns ?st)(droppableId (source ?r) \<mapsto> ?sc\<lparr>items := remove_at (nat (index (source ?r))) (items ?sc)\<rparr>,
          droppableId (place ''done'' 1) \<mapsto>
            ?dc\<lparr>items := insert_at (nat (index (place ''done'' 1))) (items ?sc ! nat (index (source ?r))) (items ?dc)\<rparr>))"
    using handleDragEnd_moves_card [of False ?r "place ''done'' 1" ?st ?sc ?dc True "\<lambda>cols. Some ''markdown''"] hyps
    by blast
  have readonly: "handleDragEnd True True (\<lambda>cols. Some ''markdown'') ?r ?st = Returned ?st []"
    using handleDragEnd_moves_card [of True ?r "place ''done'' 1" ?st ?sc ?dc True "\<lambda>cols. Some ''markdown''"]
    by blast
  have nodest: "handleDragEnd False True (\<lambda>cols. Some ''markdown'')
      \<lparr>source = place ''todo'' 0, destination = None\<rparr> ?st = Returned ?st []"
    using handleDragEnd_moves_card [of False "\<lparr>source = place ''todo'' 0, destination = None\<rparr>"
        "place ''done'' 1" ?st ?sc ?dc True "\<lambda>cols. Some ''markdown''"]
    by simp
  have "board_after (handleDragEnd False True (\<lambda>cols. Some ''markdown'') ?r ?st)
      = Some (columns (board [(''done'', [''c'', ''a'']), (''todo'', [''b''])]))"
    unfolding moved by (simp add: board_def place_def remove_at_def insert_at_def)
  then show ?thesis
    using readonly nodest by simp
qed


section \<open>A 401 response logs the user out\<close>

text \<open>
  Claim C3. For every rejection with status 401 that reaches the response interceptor,
  the client logs out (the token is removed from local storage and the current user is
  cleared) and the router is sent to \<open>/login\<close>.
\<close>

theorem unauthorized_response_logs_out:
  assumes "response_status err = Some 401"
  shows "localStorage (response_interceptor err c) ''token'' = None
    \<and> user (response_interceptor err c) = None
    \<and> route (response_interceptor err c) = ''/login''"
  using assms by (simp add: response_interceptor_def logout_def navigate_def)

theorem unauthorized_response_logs_out_witness:
  "response_status unauthorized = Some 401
   \<and> localStorage signed_in ''token'' = Some ''abc'' \<and> user signed_in = Some alice
   \<and> localStorage (response_interceptor unauthorized signed_in) ''token'' = None
   \<and> user (response_interceptor unauthorized signed_in) = None
   \<and> route (response_interceptor unauthorized signed_in) = ''/login''"
proof -
  have h: "response_status unauthorized = Some 401"
    by (simp add: unauthorized_def)
  have "localStorage signed_in ''token'' = Some ''abc''" and "user signed_in = Some alice"
    by (simp_all add: signed_in_def fresh_def reload_def)
  then show ?thesis
    using h unauthorized_response_logs_out [OF h, of signed_in] by simp
qed

text \<open>
  The interceptor is installed again whenever \<open>navigate\<close> changes and never removed;
  running it more than once on a rejection gives the state that running it once gives.
\<close>

lemma response_interceptor_idem:
  "response_interceptor err (response_interceptor err c) = response_interceptor err c"
  by (simp add: response_interceptor_def logout_def navigate_def)


section \<open>The reader injects sanitized HTML only\<close>

text \<open>
  Claim C4. When the render request for a content that is not empty settles with the
  HTML \<open>html\<close>, the HTML the reader hands to the document is \<open>sanitize html\<close>; and in
  every state of the component, whatever it hands to the document is the sanitization of
  \<open>renderedContent\<close>, never that string itself.
\<close>

theorem Reader_injects_sanitized:
  "(content \<noteq> [] \<longrightarrow>
      injected_html (Reader sanitize (renderMarkdown_settle (Ok html) (renderMarkdown_start content s)))
        = Some (sanitize html))
   \<and> (injected_html (Reader sanitize s') = Some h \<longrightarrow> h = sanitize (renderedContent s'))"
  by (auto simp: Reader_def injected_html_def renderMarkdown_start_def renderMarkdown_settle_def
      or_else_def split: if_splits)

theorem Reader_injects_sanitized_witness:
  "str ''# Title'' \<noteq> []
   \<and> injected_html (Reader strip_tags (renderMarkdown_settle (Ok ''<h1>Title</h1>'')
        (renderMarkdown_start (str ''# Title'') \<lparr>renderedContent = [], loading = False, reader_error = None\<rparr>)))
      = Some ''h1Title/h1''
   \<and> injected_html (Reader strip_tags \<lparr>renderedContent = ''<b>x</b>'', loading = False, reader_error = None\<rparr>)
      = Some ''bx/b''"
proof -
  let ?s = "\<lparr>renderedContent = [], loading = False, reader_error = None\<rparr>"
  let ?s' = "\<lparr>renderedContent = ''<b>x</b>'', loading = False, reader_error = None\<rparr>"
  have h1: "str ''# Title'' \<noteq> []"
    by (simp add: str_def)
  have h2: "injected_html (Reader strip_tags ?s') = Some ''bx/b''"
    by (simp add: Reader_def injected_html_def or_else_def strip_tags_def)
  have "injected_html (Reader strip_tags (renderMarkdown_settle (Ok ''<h1>Title</h1>'')
          (renderMarkdown_start (str ''# Title'') ?s))) = Some (strip_tags ''<h1>Title</h1>'')"
    and "''bx/b'' = strip_tags (renderedContent ?s')"
    using Reader_injects_sanitized [of "str ''# Title''" strip_tags "''<h1>Title</h1>''" ?s ?s' "''bx/b''"]
      h1 h2 by blast+
  then show ?thesis
    using h1 h2 by (simp add: strip_tags_def)
qed


section \<open>The render request of the reader\<close>

text \<open>
  Claim C5. Each of the five services is asked for at its endpoint: markdown rendering at
  \<open>/api/markdown/render\<close>, dataview execution at \<open>/api/dataview/execute\<close>, kanban
  parsing at \<open>/api/kanban/parse\<close>, PDF export at \<open>/api/export/pdf\<close>, full-text search at
  \<open>/api/search/query\<close>. The reader's render request goes elsewhere: to
  \<open>/api/render/markdown\<close>, while the render request of the API service goes to the
  endpoint of the claim.
\<close>

theorem Reader_render_endpoint:
  "req_url (Reader_renderMarkdown content filePath) = ''/api/render/markdown''
   \<and> req_url (Reader_renderMarkdown content filePath) \<noteq> ''/api/markdown/render''
   \<and> req_url (markdownAPI_renderMarkdown API_BASE_URL content) = API_BASE_URL @ ''/api/markdown/render''"
  by (simp add: Reader_renderMarkdown_def markdownAPI_renderMarkdown_def axios_post_def api_request_def)

text \<open>The requests of the four other components go where the claim says.\<close>

lemma component_endpoints:
  "req_url (DataView_execute q filePath) = ''/api/dataview/execute''"
  "req_url (parseMarkdownToKanban_request content) = ''/api/kanban/parse''"
  "req_url (generatePDF_request content fileName) = ''/api/export/pdf''"
  "req_url (performSearch_request query opts) = ''/api/search/query''"
  by (simp_all add: DataView_execute_def parseMarkdownToKanban_request_def generatePDF_request_def
      performSearch_request_def axios_post_def)

text \<open>The dataview request of the API service does not.\<close>

lemma dataViewAPI_endpoint:
  "req_url (dataViewAPI_executeQuery API_BASE_URL query) = API_BASE_URL @ ''/api/dataview/query''"
  by (simp add: dataViewAPI_executeQuery_def api_request_def)


section \<open>What the client keeps in local storage\<close>

text \<open>
  Claim C6, as stated: the token is the only state that outlives the page. It is not:
  on a client opened with empty storage, \<open>toggleTheme\<close> writes the key \<open>theme\<close>, and
  after a reload the theme is still the dark one.
\<close>

theorem theme_is_durable_counterexample:
  "localStorage (fresh Map.empty ''/'') ''theme'' = None
   \<and> theme (fresh Map.empty ''/'') = light
   \<and> localStorage (run_op (fresh Map.empty ''/'') ToggleTheme) ''theme'' = Some ''dark''
   \<and> theme (run_op (run_op (fresh Map.empty ''/'') ToggleTheme) (Reload ''/'')) = dark"
  by (simp add: fresh_def reload_def toggleTheme_def theme_name_def Let_def)

lemma run_op_storage:
  assumes "k \<noteq> ''token''" and "k \<noteq> ''theme''" and "k \<noteq> ''leftNavCollapsed''"
  shows "localStorage (run_op c op) k = localStorage c k"
proof (cases op)
  case (Login token me)
  then show ?thesis
    using assms
    by (simp add: login_def login_failed_def response_interceptor_def logout_def navigate_def Let_def
        split: answer.splits)
next
  case Logout
  then show ?thesis using assms by (simp add: logout_def navigate_def)
next
  case (CheckAuth me)
  then show ?thesis
    using assms
    by (simp add: checkAuth_def response_interceptor_def logout_def navigate_def Let_def
        split: answer.splits)
next
  case (Rejected err)
  then show ?thesis
    using assms by (simp add: response_interceptor_def logout_def navigate_def)
next
  case ToggleTheme
  then show ?thesis using assms by (simp add: toggleTheme_def Let_def)
next
  case ToggleLeftNav
  then show ?thesis using assms by (simp add: toggleLeftNav_def)
next
  case (Reload url)
  then show ?thesis by (simp add: reload_def Let_def)
qed

lemma run_ops_storage:
  assumes "k \<noteq> ''token''" and "k \<noteq> ''theme''" and "k \<noteq> ''leftNavCollapsed''"
  shows "localStorage (foldl run_op c ops) k = localStorage c k"
proof (induction ops arbitrary: c)
  case Nil
  then show ?case by simp
next
  case (Cons op ops)
  have "localStorage (foldl run_op (run_op c op) ops) k = localStorage (run_op c op) k"
    by (rule Cons.IH)
  then show ?case
    using run_op_storage [OF assms] by simp
qed

text \<open>
  Claim C6, amended. The state the application's code keeps beyond the page is what
  stands in local storage under the three keys \<open>token\<close>, \<open>theme\<close> and
  \<open>leftNavCollapsed\<close>: no sequence of its operations changes local storage under any
  other key. All other state is transient: after a reload the client's state is a
  function of local storage and the URL alone.
\<close>

theorem durable_state_is_three_keys:
  "(k \<noteq> ''token'' \<and> k \<noteq> ''theme'' \<and> k \<noteq> ''leftNavCollapsed''
      \<longrightarrow> localStorage (foldl run_op c ops) k = localStorage c k)
   \<and> (localStorage c = localStorage c' \<longrightarrow> reload url c = reload url c')"
  using run_ops_storage by (simp add: reload_def)

theorem durable_state_is_three_keys_witness:
  "''draft'' \<noteq> ''token'' \<and> ''draft'' \<noteq> ''theme'' \<and> ''draft'' \<noteq> ''leftNavCollapsed''
   \<and> localStorage (foldl run_op signed_in [ToggleTheme, ToggleLeftNav, Rejected unauthorized, Logout]) ''draft''
       = localStorage signed_in ''draft''
   \<and> localStorage signed_in = localStorage (signed_in\<lparr>route := ''/login'', user := None, theme := dark\<rparr>)
   \<and> reload ''/'' signed_in = reload ''/'' (signed_in\<lparr>route := ''/login'', user := None, theme := dark\<rparr>)"
proof -
  let ?c' = "signed_in\<lparr>route := ''/login'', user := None, theme := dark\<rparr>"
  have h1: "''draft'' \<noteq> ''token'' \<and> ''draft'' \<noteq> ''theme'' \<and> ''draft'' \<noteq> ''leftNavCollapsed''"
    by simp
  have h2: "localStorage signed_in = localStorage ?c'"
    by simp
  show ?thesis
    using durable_state_is_three_keys
      [of "''draft''" signed_in "[ToggleTheme, ToggleLeftNav, Rejected unauthorized, Logout]" ?c' "''/''"]
      h1 h2
    by blast
qed


section \<open>The matcher and the regular expression\<close>

text \<open>
  \<open>match_here\<close> finds a match of the expression whenever there is one
  (\<open>match_here_sound\<close>, \<open>match_here_complete\<close>), and the match it finds is the one a
  backtracking matcher comes to first: no match has more spaces before the group, and
  none with as many spaces has a shorter group (\<open>match_here_preferred\<close>). \<open>regex_exec\<close>
  gives the match at the first place of the string that has one.
\<close>

lemma strip_prefix_Some: "strip_prefix p s = Some r \<longleftrightarrow> s = p @ r"
  by (induction p s rule: strip_prefix.induct) auto

lemma until_fence_sound: "until_fence s = Some (b, r) \<Longrightarrow> s = b @ fence @ r"
proof (induction s arbitrary: b)
  case Nil
  then show ?case by simp
next
  case (Cons c cs)
  show ?case
  proof (cases "strip_prefix fence (c # cs)")
    case None
    with Cons.prems obtain b' where b': "until_fence cs = Some (b', r)" and b: "b = c # b'"
      by (auto split: option.splits)
    from b' have "cs = b' @ fence @ r" by (rule Cons.IH)
    with b show ?thesis by simp
  next
    case (Some rest)
    with Cons.prems have "b = []" and "rest = r" by simp_all
    with Some show ?thesis by (simp add: strip_prefix_Some)
  qed
qed

lemma until_fence_first:
  "s = b @ fence @ r \<Longrightarrow> \<exists>b' r'. until_fence s = Some (b', r') \<and> length b' \<le> length b"
proof (induction s arbitrary: b)
  case Nil
  then show ?case by (simp add: fence_def str_def)
next
  case (Cons c cs)
  show ?case
  proof (cases "strip_prefix fence (c # cs)")
    case (Some rest)
    then show ?thesis by simp
  next
    case None
    have "b \<noteq> []"
    proof
      assume "b = []"
      then have "strip_prefix fence (c # cs) = Some r"
        using Cons.prems by (simp add: strip_prefix_Some)
      with None show False by simp
    qed
    then obtain b0 where b: "b = c # b0" and cs: "cs = b0 @ fence @ r"
      using Cons.prems by (cases b) auto
    from Cons.IH [OF cs] obtain b' r' where "until_fence cs = Some (b', r')" "length b' \<le> length b0"
      by blast
    then show ?thesis
      using None b by simp
  qed
qed

lemma fence_not_space: "fence = c # cs \<Longrightarrow> \<not> is_space c"
  by (auto simp: fence_def str_def is_space_def)

lemma match_here_sound:
  assumes "match_here s = Some (body, rest)"
  shows "\<exists>ws. regex_match s ws body rest"
proof -
  from assms obtain t where t: "strip_prefix (str ''```dataview'') s = Some t"
    and ne: "takeWhile is_space t \<noteq> []"
    and u: "until_fence (dropWhile is_space t) = Some (body, rest)"
    by (auto simp: match_here_def split: option.splits if_splits)
  have d: "dropWhile is_space t = body @ fence @ rest"
    using u by (rule until_fence_sound)
  have s: "s = str ''```dataview'' @ t"
    using t by (simp only: strip_prefix_Some)
  have "s = str ''```dataview'' @ takeWhile is_space t @ body @ fence @ rest"
    by (subst s, subst d [symmetric]) (simp only: takeWhile_dropWhile_id)
  moreover have "\<forall>c \<in> set (takeWhile is_space t). is_space c"
    by (auto dest: set_takeWhileD)
  ultimately show ?thesis
    using ne unfolding regex_match_def by blast
qed

lemma dropWhile_before_fence:
  "\<exists>b'. dropWhile is_space (body @ fence @ rest) = b' @ fence @ rest \<and> length b' \<le> length body"
proof (induction body)
  case Nil
  have "dropWhile is_space (fence @ rest) = fence @ rest"
    by (simp add: fence_def str_def is_space_def)
  then show ?case by simp
next
  case (Cons c body)
  show ?case
  proof (cases "is_space c")
    case True
    then have "dropWhile is_space ((c # body) @ fence @ rest) = dropWhile is_space (body @ fence @ rest)"
      by simp
    with Cons.IH obtain b' where "dropWhile is_space ((c # body) @ fence @ rest) = b' @ fence @ rest"
      and "length b' \<le> length body" by auto
    then show ?thesis
      by (intro exI [of _ b']) simp
  next
    case False
    then have "dropWhile is_space ((c # body) @ fence @ rest) = (c # body) @ fence @ rest"
      by simp
    then show ?thesis
      by (intro exI [of _ "c # body"]) simp
  qed
qed

lemma match_here_complete:
  assumes "regex_match s ws body rest"
  shows "\<exists>body' rest'. match_here s = Some (body', rest')"
proof -
  let ?t = "ws @ body @ fence @ rest"
  from assms have s: "strip_prefix (str ''```dataview'') s = Some ?t"
    and ne: "ws \<noteq> []" and sp: "\<forall>c \<in> set ws. is_space c"
    by (simp_all add: regex_match_def strip_prefix_Some)
  have tw: "takeWhile is_space ?t \<noteq> []"
    using ne sp by (cases ws) auto
  have "dropWhile is_space ?t = dropWhile is_space (body @ fence @ rest)"
    using sp by (simp add: dropWhile_append2)
  moreover obtain b' where "dropWhile is_space (body @ fence @ rest) = b' @ fence @ rest"
    using dropWhile_before_fence [of body rest] by blast
  ultimately have "dropWhile is_space ?t = b' @ fence @ rest"
    by simp
  from until_fence_first [OF this]
  obtain b'' r'' where "until_fence (dropWhile is_space ?t) = Some (b'', r'')"
    by blast
  then show ?thesis
    using s tw by (simp add: match_here_def)
qed

lemma regex_exec_leftmost:
  "regex_exec s = Some m \<Longrightarrow>
     \<exists>k \<le> length s. match_here (drop k s) = Some m \<and> (\<forall>j < k. match_here (drop j s) = None)"
proof (induction s)
  case Nil
  then show ?case by simp
next
  case (Cons c cs)
  show ?case
  proof (cases "match_here (c # cs)")
    case (Some m')
    with Cons.prems have "match_here (drop 0 (c # cs)) = Some m" by simp
    then show ?thesis by (intro exI [of _ 0]) simp
  next
    case None
    with Cons.prems have "regex_exec cs = Some m" by simp
    from Cons.IH [OF this] obtain k where k: "k \<le> length cs" "match_here (drop k cs) = Some m"
      "\<forall>j < k. match_here (drop j cs) = None" by blast
    have "\<forall>j < Suc k. match_here (drop j (c # cs)) = None"
    proof (intro allI impI)
      fix j assume "j < Suc k"
      then show "match_here (drop j (c # cs)) = None"
        using None k(3) by (cases j) auto
    qed
    then show ?thesis
      using k(1,2) by (intro exI [of _ "Suc k"]) simp
  qed
qed

lemma regex_exec_None:
  "regex_exec s = None \<Longrightarrow> match_here (drop k s) = None"
proof (induction s arbitrary: k)
  case Nil
  then show ?case by (simp add: match_here_def str_def)
next
  case (Cons c cs)
  from Cons.prems have a: "match_here (c # cs) = None" and b: "regex_exec cs = None"
    by (simp_all split: option.splits)
  show ?case
    using a Cons.IH [OF b] by (cases k) auto
qed


lemma match_here_preferred:
  assumes "match_here s = Some (body, rest)" and "regex_match s ws' body' rest'"
  shows "\<exists>ws. regex_match s ws body rest \<and> length ws' \<le> length ws
    \<and> (length ws' = length ws \<longrightarrow> length body \<le> length body')"
proof -
  let ?u = "body' @ fence @ rest'"
  from assms(1) obtain t where t: "strip_prefix (str ''```dataview'') s = Some t"
    and ne: "takeWhile is_space t \<noteq> []"
    and u: "until_fence (dropWhile is_space t) = Some (body, rest)"
    by (auto simp: match_here_def split: option.splits if_splits)
  have d: "dropWhile is_space t = body @ fence @ rest"
    using u by (rule until_fence_sound)
  have s: "s = str ''```dataview'' @ t"
    using t by (simp only: strip_prefix_Some)
  have "s = str ''```dataview'' @ takeWhile is_space t @ body @ fence @ rest"
    by (subst s, subst d [symmetric]) (simp only: takeWhile_dropWhile_id)
  moreover have "\<forall>c \<in> set (takeWhile is_space t). is_space c"
    by (auto dest: set_takeWhileD)
  ultimately have m: "regex_match s (takeWhile is_space t) body rest"
    using ne unfolding regex_match_def by blast
  from assms(2) have t': "t = ws' @ ?u" and sp: "\<forall>c \<in> set ws'. is_space c"
    using s by (simp_all add: regex_match_def)
  have tw: "takeWhile is_space t = ws' @ takeWhile is_space ?u"
    unfolding t' using sp by (simp add: takeWhile_append2)
  have dw: "dropWhile is_space t = dropWhile is_space ?u"
    unfolding t' using sp by (simp add: dropWhile_append2)
  have le: "length ws' \<le> length (takeWhile is_space t)"
    by (simp add: tw)
  have "length body \<le> length body'" if "length ws' = length (takeWhile is_space t)"
  proof -
    from that have "takeWhile is_space ?u = []"
      by (simp add: tw)
    then have "dropWhile is_space ?u = ?u"
      by (metis takeWhile_dropWhile_id append_Nil)
    then have "dropWhile is_space t = body' @ fence @ rest'"
      using dw by simp
    from until_fence_first [OF this] obtain b'' r'' where
      "until_fence (dropWhile is_space t) = Some (b'', r'')" and "length b'' \<le> length body'"
      by blast
    then show ?thesis
      using u by simp
  qed
  then show ?thesis
    using m le by blast
qed


section \<open>What the dataview panel extracts and posts\<close>

lemma extract_loop_numbered:
  "extract_loop s acc = acc @ numbered (length acc) (filter keeps (all_matches s))"
proof (induction s acc rule: extract_loop.induct)
  case (1 s acc)
  show ?case
  proof (cases "regex_exec s")
    case None
    then show ?thesis
      by (simp add: extract_loop.simps [of s] all_matches.simps [of s])
  next
    case (Some m)
    obtain b rest where m: "m = (b, rest)" by (cases m)
    note ex = Some [unfolded m]
    consider (t) "str_includes b (str ''TABLE'')"
      | (l) "\<not> str_includes b (str ''TABLE'')" "str_includes b (str ''LIST'')"
      | (n) "\<not> str_includes b (str ''TABLE'')" "\<not> str_includes b (str ''LIST'')"
      by blast
    then show ?thesis
    proof cases
      case t
      then show ?thesis
        using "1.IH"(1) [OF ex refl refl t]
        by (simp add: extract_loop.simps [of s] all_matches.simps [of s] ex keeps_def)
    next
      case l
      then show ?thesis
        using "1.IH"(2) [OF ex refl refl l]
        by (simp add: extract_loop.simps [of s] all_matches.simps [of s] ex keeps_def)
    next
      case n
      then show ?thesis
        using "1.IH"(3) [OF ex refl refl n]
        by (simp add: extract_loop.simps [of s] all_matches.simps [of s] ex keeps_def)
    qed
  qed
qed

lemma numbered_ids:
  "map query_id (numbered n bs) = map (\<lambda>i. str ''query-'' @ decimal i) [n ..< n + length bs]"
proof (induction bs arbitrary: n)
  case Nil
  then show ?case by simp
next
  case (Cons b bs)
  have "[n ..< n + length (b # bs)] = n # [Suc n ..< Suc n + length bs]"
    by (simp add: upt_rec)
  then show ?case
    using Cons.IH [of "Suc n"] by simp
qed

lemma numbered_sources: "map query_source (numbered n bs) = bs"
  by (induction bs arbitrary: n) auto

lemma length_numbered: "length (numbered n bs) = length bs"
  by (induction bs arbitrary: n) auto

lemma execute_loop_sent:
  "snd (execute_loop backend filePath n qs res sent) =
     sent @ map (\<lambda>q. DataView_execute (query_source q) filePath) qs"
  by (induction qs arbitrary: n res sent) auto

lemma DataView_content_sent:
  "snd (DataView_content backend filePath content st) =
     map (\<lambda>q. DataView_execute (query_source q) filePath) (extractQueries content)"
  by (simp add: DataView_content_def executeQueries_def execute_loop_sent Let_def case_prod_beta)

text \<open>
  Claim C2, as stated: the panel extracts exactly the blocks its expression matches. It
  does not: in the document that holds the one block \<open>TASK\<close>, the expression matches
  that block and the panel extracts nothing.
\<close>

theorem task_block_dropped_counterexample:
  "all_matches task_document = [str ''TASK\<newline>'']
   \<and> extractQueries task_document = []
   \<and> map query_source (extractQueries task_document) \<noteq> all_matches task_document"
proof -
  have m: "regex_exec task_document = Some (str ''TASK\<newline>'', [])"
    by (simp add: task_document_def str_def match_here_def fence_def is_space_def)
  have a: "all_matches task_document = [str ''TASK\<newline>'']"
    by (simp add: all_matches.simps [of task_document] m all_matches.simps [of "[]"])
  have "\<not> keeps (str ''TASK\<newline>'')"
    by (simp add: keeps_def str_def)
  then have "extractQueries task_document = []"
    by (simp add: extractQueries_def extract_loop_numbered a)
  then show ?thesis
    using a by simp
qed

text \<open>
  Claim C2, amended. Of the blocks its expression matches, the panel extracts exactly
  those whose text contains \<open>TABLE\<close> or \<open>LIST\<close>, in their order in the document; the
  extracted queries have the ids \<open>query-0\<close>, \<open>query-1\<close>, ... in that order; and when the
  content changes, the text of each extracted query is posted to
  \<open>/api/dataview/execute\<close>, one request per query, in that order.
\<close>

theorem extractQueries_kept_blocks:
  "extractQueries content = numbered 0 (filter keeps (all_matches content))
   \<and> map query_source (extractQueries content) = filter keeps (all_matches content)
   \<and> map query_id (extractQueries content) =
       map (\<lambda>i. str ''query-'' @ decimal i) [0 ..< length (extractQueries content)]
   \<and> snd (DataView_content backend filePath content st) =
       map (\<lambda>q. axios_post ''/api/dataview/execute''
                  (JObject [(''query'', JString (query_source q)), (''filePath'', JString filePath),
                            (''contextPath'', JString filePath)]))
           (extractQueries content)"
proof -
  have e: "extractQueries content = numbered 0 (filter keeps (all_matches content))"
    by (simp add: extractQueries_def extract_loop_numbered)
  have "map query_id (extractQueries content) =
      map (\<lambda>i. str ''query-'' @ decimal i) [0 ..< length (extractQueries content)]"
    unfolding e by (simp add: numbered_ids length_numbered)
  moreover have "snd (DataView_content backend filePath content st) =
       map (\<lambda>q. axios_post ''/api/dataview/execute''
                  (JObject [(''query'', JString (query_source q)), (''filePath'', JString filePath),
                            (''contextPath'', JString filePath)]))
           (extractQueries content)"
    by (simp add: DataView_content_sent DataView_execute_def)
  ultimately show ?thesis
    using e by (simp add: numbered_sources)
qed

text \<open>In the document with a table block and a list block, both are extracted.\<close>

lemma two_query_document_queries:
  "extractQueries two_query_document =
     [\<lparr>query_type = ''table'', query_source = str ''TABLE a'', query_id = str ''query-0''\<rparr>,
      \<lparr>query_type = ''list'', query_source = str ''LIST b'', query_id = str ''query-1''\<rparr>]"
  by (simp add: extractQueries_def two_query_document_def extract_loop.simps decimal.simps
      str_def match_here_def fence_def is_space_def)


section \<open>A failed query leaves the other results alone\<close>

lemma decimal_nonempty: "decimal n \<noteq> []"
  by (subst decimal.simps) simp

lemma decimal_inj: "decimal n = decimal m \<Longrightarrow> n = m"
proof (induction n arbitrary: m rule: decimal.induct)
  case (1 n)
  show ?case
  proof (cases "n < 10")
    case True
    then have n: "decimal n = [48 + n]" by (subst decimal.simps) simp
    show ?thesis
    proof (cases "m < 10")
      case True
      then have "decimal m = [48 + m]" by (subst decimal.simps) simp
      with n "1.prems" show ?thesis by simp
    next
      case False
      then have "decimal m = decimal (m div 10) @ [48 + m mod 10]"
        by (subst decimal.simps) simp
      with n "1.prems" have "decimal (m div 10) = []" by simp
      then show ?thesis using decimal_nonempty by blast
    qed
  next
    case False
    then have n: "decimal n = decimal (n div 10) @ [48 + n mod 10]"
      by (subst decimal.simps) simp
    show ?thesis
    proof (cases "m < 10")
      case True
      then have "decimal m = [48 + m]" by (subst decimal.simps) simp
      with n "1.prems" have "decimal (n div 10) = []" by simp
      then show ?thesis using decimal_nonempty by blast
    next
      case m: False
      then have "decimal m = decimal (m div 10) @ [48 + m mod 10]"
        by (subst decimal.simps) simp
      with n "1.prems" have a: "decimal (n div 10) = decimal (m div 10)" and b: "n mod 10 = m mod 10"
        by simp_all
      from a have "n div 10 = m div 10"
        using "1.IH" False by blast
      with b show ?thesis
        by (metis div_mult_mod_eq)
    qed
  qed
qed

text \<open>The ids that \<open>extractQueries\<close> gives are all different.\<close>

lemma numbered_distinct: "distinct (map query_id (numbered n bs))"
proof -
  have "inj_on (\<lambda>i. str ''query-'' @ decimal i) (set [n ..< n + length bs])"
    by (rule inj_onI) (simp add: decimal_inj)
  then show ?thesis
    by (simp add: numbered_ids distinct_map)
qed

lemma extractQueries_distinct: "distinct (map query_id (extractQueries content))"
  by (simp add: extractQueries_def extract_loop_numbered numbered_distinct)

lemma execute_loop_untouched:
  "k \<notin> query_id ` set qs \<Longrightarrow> fst (execute_loop backend filePath n qs res sent) k = res k"
  by (induction qs arbitrary: n res sent) auto

lemma execute_loop_result:
  assumes "distinct (map query_id qs)" and "i < length qs"
  shows "fst (execute_loop backend filePath n qs res sent) (query_id (qs ! i))
    = Some (query_result (qs ! i) (backend (n + i)))"
  using assms
proof (induction qs arbitrary: n res sent i)
  case Nil
  then show ?case by simp
next
  case (Cons q qs)
  show ?case
  proof (cases i)
    case 0
    have "query_id q \<notin> query_id ` set qs"
      using Cons.prems(1) by simp
    then show ?thesis
      using 0 by (simp add: execute_loop_untouched)
  next
    case (Suc j)
    then have "j < length qs" and "distinct (map query_id qs)"
      using Cons.prems by simp_all
    then show ?thesis
      using Suc Cons.IH [of j "Suc n"] by simp
  qed
qed

lemma DataView_content_result:
  assumes "i < length (extractQueries content)"
  shows "results (fst (DataView_content backend filePath content st)) (query_id (extractQueries content ! i))
    = Some (query_result (extractQueries content ! i) (backend i))"
proof -
  let ?qs = "extractQueries content"
  have ne: "?qs \<noteq> []" using assms by auto
  have "fst (execute_loop backend filePath 0 ?qs Map.empty []) (query_id (?qs ! i))
      = Some (query_result (?qs ! i) (backend (0 + i)))"
    using extractQueries_distinct assms by (rule execute_loop_result)
  then show ?thesis
    using ne by (simp add: DataView_content_def executeQueries_def Let_def case_prod_beta)
qed

text \<open>
  Claim C8. When the panel executes the queries it extracted, each query gets its own
  result under its own id, whatever the answers to the other requests are: a failed
  request gives the error result of that query (no columns, no rows, the error text of
  the response or \<open>Failed to execute query\<close>), a successful one gives its columns and
  rows; and one request is sent for every query, so a failure stops nothing.
\<close>

theorem failed_query_keeps_other_results:
  assumes "i < length (extractQueries content)"
  shows
    "(\<forall>err. backend i = Failed err \<longrightarrow>
        results (fst (DataView_content backend filePath content st)) (query_id (extractQueries content ! i))
          = Some \<lparr>result_id = query_id (extractQueries content ! i), result_columns = [], result_data = [],
                  result_error = Some (or_else (response_error err) ''Failed to execute query'')\<rparr>)
     \<and> (\<forall>d. backend i = Ok d \<longrightarrow>
        results (fst (DataView_content backend filePath content st)) (query_id (extractQueries content ! i))
          = Some \<lparr>result_id = query_id (extractQueries content ! i),
                  result_columns = (case data_columns d of None \<Rightarrow> [] | Some cs \<Rightarrow> cs),
                  result_data = (case data_data d of None \<Rightarrow> [] | Some rows \<Rightarrow> rows),
                  result_error = None\<rparr>)
     \<and> length (snd (DataView_content backend filePath content st)) = length (extractQueries content)"
  using DataView_content_result [OF assms, of backend filePath st]
  by (simp add: query_result_def DataView_content_sent)

text \<open>
  Two queries, the first request fails and the second succeeds: \<open>query-0\<close> holds the
  error, \<open>query-1\<close> holds the table, two requests were sent.
\<close>

theorem failed_query_keeps_other_results_witness:
  "length (extractQueries two_query_document) = 2
   \<and> first_fails 0 = Failed no_response
   \<and> results (fst (DataView_content first_fails (str ''notes.md'') two_query_document empty_panel)) (str ''query-0'')
       = Some \<lparr>result_id = str ''query-0'', result_columns = [], result_data = [],
               result_error = Some ''Failed to execute query''\<rparr>
   \<and> results (fst (DataView_content first_fails (str ''notes.md'') two_query_document empty_panel)) (str ''query-1'')
       = Some \<lparr>result_id = str ''query-1'', result_columns = [JString (str ''file'')], result_data = [],
               result_error = None\<rparr>
   \<and> length (snd (DataView_content first_fails (str ''notes.md'') two_query_document empty_panel)) = 2"
proof -
  note q = two_query_document_queries
  have h0: "0 < length (extractQueries two_query_document)"
    and h1: "1 < length (extractQueries two_query_document)"
    by (simp_all add: q)
  have f0: "first_fails 0 = Failed no_response"
    and f1: "first_fails 1 = Ok \<lparr>data_columns = Some [JString (str ''file'')], data_data = None\<rparr>"
    by (simp_all add: first_fails_def)
  show ?thesis
    using failed_query_keeps_other_results [OF h0, of first_fails "str ''notes.md''" empty_panel]
      failed_query_keeps_other_results [OF h1, of first_fails "str ''notes.md''" empty_panel]
      f0 f1
    by (simp add: q or_else_def no_response_def)
qed



section \<open>Debounced requests\<close>

subsection \<open>The hook\<close>

lemma timer_ok_mount: "timer_ok delay (useDebounce_mount v)"
  by (simp add: timer_ok_def useDebounce_mount_def)

lemma timer_ok_render:
  "0 < delay \<Longrightarrow> timer_ok delay d \<Longrightarrow> timer_ok delay (useDebounce_render delay v d)"
  by (simp add: timer_ok_def useDebounce_render_def)

lemma timer_ok_tick: "timer_ok delay d \<Longrightarrow> timer_ok delay (useDebounce_tick d)"
  by (auto simp: timer_ok_def useDebounce_tick_def split: option.splits)

text \<open>
  A tick that changes the debounced value comes when the interval has passed, and the
  debounced value is then the input.
\<close>

lemma tick_fires:
  assumes "timer_ok delay d" and "debouncedValue (useDebounce_tick d) \<noteq> debouncedValue d"
  shows "unchanged (useDebounce_tick d) = delay
    \<and> debouncedValue (useDebounce_tick d) = val (useDebounce_tick d)"
  using assms by (auto simp: timer_ok_def useDebounce_tick_def split: option.splits if_splits)

lemma render_debounced: "debouncedValue (useDebounce_render delay v d) = debouncedValue d"
  by (simp add: useDebounce_render_def)

lemma render_val: "val (useDebounce_render delay v d) = v"
  by (simp add: useDebounce_render_def)

subsection \<open>Search\<close>

lemma Search_step_timer_ok:
  "timer_ok 300 (search_query s) \<Longrightarrow> timer_ok 300 (search_query (fst (Search_step s e)))"
  by (cases e) (simp_all add: timer_ok_render timer_ok_tick Let_def)

lemma Search_run_timer_ok: "timer_ok 300 (search_query (Search_run es))"
proof (induction es rule: rev_induct)
  case Nil
  then show ?case by (simp add: Search_run_def Search_mount_def timer_ok_mount)
next
  case (snoc e es)
  then show ?case
    using Search_step_timer_ok [of "Search_run es" e] by (simp add: Search_run_def)
qed

lemma Search_step_debounced:
  assumes "timer_ok 300 (search_query s)" and "Search_step s e = (s', sent)"
    and "debouncedValue (search_query s') \<noteq> debouncedValue (search_query s)"
  shows "e = SearchTick \<and> unchanged (search_query s') = 300
    \<and> debouncedValue (search_query s') = val (search_query s')"
proof (cases e)
  case SearchTick
  with assms(2) have "s' = s\<lparr>search_query := useDebounce_tick (search_query s)\<rparr>"
    by (auto simp: Let_def)
  then show ?thesis
    using SearchTick assms(3) tick_fires [OF assms(1)] by simp
qed (use assms in \<open>auto simp: render_debounced Let_def\<close>)

lemma Search_step_posts:
  assumes "Search_step s e = (s', sent)" and "SearchPost r \<in> set sent"
  shows "r = performSearch_request (debouncedValue (search_query s')) (searchOptions s')
    \<and> debouncedValue (search_query s') \<noteq> []"
  using assms
  by (cases e)
    (auto simp: Let_def search_effect_def performSearch_def suggestions_effect_def fetchSuggestions_def
      split: if_splits)

lemma Search_keystroke_posts:
  assumes "Search_step s (Keystroke q) = (s', sent)"
  shows "SearchPost r \<notin> set sent"
  using assms by (auto simp: Let_def suggestions_effect_def fetchSuggestions_def split: if_splits)

lemma Search_tick_posts:
  assumes "timer_ok 300 (search_query s)" and "Search_step s SearchTick = (s', sent)"
    and "SearchPost r \<in> set sent"
  shows "unchanged (search_query s') = 300 \<and> debouncedValue (search_query s') = val (search_query s')"
proof -
  from assms(2,3) have "debouncedValue (useDebounce_tick (search_query s)) \<noteq> debouncedValue (search_query s)"
    and "search_query s' = useDebounce_tick (search_query s)"
    by (auto simp: Let_def split: if_splits)
  then show ?thesis
    using tick_fires [OF assms(1)] by simp
qed

lemma Search_step_suggestions:
  assumes "Search_step s e = (s', sent)" and "SuggestionsGet u \<in> set sent"
  shows "e = Keystroke (val (search_query s'))
    \<and> val (search_query s') \<noteq> val (search_query s)
    \<and> u = str ''/api/search/suggestions?query='' @ val (search_query s')"
  using assms
  by (cases e)
    (auto simp: Let_def search_effect_def performSearch_def suggestions_effect_def fetchSuggestions_def
      render_val split: if_splits)

lemma Search_step_all:
  assumes "Search_step (Search_run ses) se = (s', sent)"
  shows "(debouncedValue (search_query s') \<noteq> debouncedValue (search_query (Search_run ses)) \<longrightarrow>
          se = SearchTick \<and> unchanged (search_query s') = 300
          \<and> debouncedValue (search_query s') = val (search_query s'))
      \<and> ((\<exists>q. se = Keystroke q) \<longrightarrow> (\<forall>r. SearchPost r \<notin> set sent))
      \<and> (se = SearchTick \<longrightarrow>
          (\<forall>r. SearchPost r \<in> set sent \<longrightarrow>
             unchanged (search_query s') = 300
             \<and> debouncedValue (search_query s') = val (search_query s')))
      \<and> (\<forall>r. SearchPost r \<in> set sent \<longrightarrow>
            r = performSearch_request (debouncedValue (search_query s')) (searchOptions s')
            \<and> debouncedValue (search_query s') \<noteq> [])
      \<and> (\<forall>u. SuggestionsGet u \<in> set sent \<longrightarrow>
            se = Keystroke (val (search_query s'))
            \<and> val (search_query s') \<noteq> val (search_query (Search_run ses))
            \<and> u = str ''/api/search/suggestions?query='' @ val (search_query s'))"
proof (intro conjI)
  show "debouncedValue (search_query s') \<noteq> debouncedValue (search_query (Search_run ses)) \<longrightarrow>
          se = SearchTick \<and> unchanged (search_query s') = 300
          \<and> debouncedValue (search_query s') = val (search_query s')"
    using Search_step_debounced [OF Search_run_timer_ok assms] by blast
  show "(\<exists>q. se = Keystroke q) \<longrightarrow> (\<forall>r. SearchPost r \<notin> set sent)"
    using Search_keystroke_posts assms by blast
  show "se = SearchTick \<longrightarrow>
          (\<forall>r. SearchPost r \<in> set sent \<longrightarrow>
             unchanged (search_query s') = 300
             \<and> debouncedValue (search_query s') = val (search_query s'))"
    using Search_tick_posts [OF Search_run_timer_ok] assms by blast
  show "\<forall>r. SearchPost r \<in> set sent \<longrightarrow>
            r = performSearch_request (debouncedValue (search_query s')) (searchOptions s')
            \<and> debouncedValue (search_query s') \<noteq> []"
    using Search_step_posts [OF assms] by blast
  show "\<forall>u. SuggestionsGet u \<in> set sent \<longrightarrow>
            se = Keystroke (val (search_query s'))
            \<and> val (search_query s') \<noteq> val (search_query (Search_run ses))
            \<and> u = str ''/api/search/suggestions?query='' @ val (search_query s')"
    using Search_step_suggestions [OF assms] by blast
qed

subsection \<open>Editor\<close>

lemma autosave_effect_keeps:
  "editor_content (fst (autosave_effect s)) = editor_content s"
  "editor_filePath (fst (autosave_effect s)) = editor_filePath s"
  "editor_loading (fst (autosave_effect s)) = editor_loading s"
  "fetching (fst (autosave_effect s)) = fetching s"
  "originalContent (fst (autosave_effect s)) = originalContent s"
  by (simp_all add: autosave_effect_def saveContent_def)

lemma Editor_step_content:
  "editor_content (fst (Editor_step s e)) =
     (case e of
        Edit v \<Rightarrow> if editable s then useDebounce_render 1000 v (editor_content s) else editor_content s
      | EditorTick \<Rightarrow> useDebounce_tick (editor_content s)
      | FilePath p \<Rightarrow> editor_content s
      | Loaded c \<Rightarrow> if fetching s = 0 then editor_content s else useDebounce_render 1000 c (editor_content s)
      | LoadFailed \<Rightarrow> editor_content s
      | SaveSettled ok \<Rightarrow> editor_content s)"
  by (cases e) (simp_all add: Let_def autosave_effect_keeps split: option.splits)

lemma Editor_step_timer_ok:
  assumes "timer_ok 1000 (editor_content s)"
  shows "timer_ok 1000 (editor_content (fst (Editor_step s e)))"
  unfolding Editor_step_content
  using assms by (cases e) (simp_all add: timer_ok_render timer_ok_tick)

lemma Editor_run_timer_ok: "timer_ok 1000 (editor_content (Editor_run path es))"
proof (induction es rule: rev_induct)
  case Nil
  then show ?case by (simp add: Editor_run_def Editor_mount_def timer_ok_mount)
next
  case (snoc e es)
  then show ?case
    using Editor_step_timer_ok [of "Editor_run path es" e] by (simp add: Editor_run_def)
qed

lemma Editor_step_content_of:
  assumes "Editor_step s e = (s', reqs)"
  shows "editor_content s' =
     (case e of
        Edit v \<Rightarrow> if editable s then useDebounce_render 1000 v (editor_content s) else editor_content s
      | EditorTick \<Rightarrow> useDebounce_tick (editor_content s)
      | FilePath p \<Rightarrow> editor_content s
      | Loaded c \<Rightarrow> if fetching s = 0 then editor_content s else useDebounce_render 1000 c (editor_content s)
      | LoadFailed \<Rightarrow> editor_content s
      | SaveSettled ok \<Rightarrow> editor_content s)"
  using Editor_step_content [of s e] unfolding assms by (simp only: fst_conv)

lemma Editor_step_debounced:
  assumes "timer_ok 1000 (editor_content s)" and "Editor_step s e = (s', reqs)"
    and "debouncedValue (editor_content s') \<noteq> debouncedValue (editor_content s)"
  shows "e = EditorTick \<and> unchanged (editor_content s') = 1000
    \<and> debouncedValue (editor_content s') = val (editor_content s')"
proof (cases e)
  case EditorTick
  then have "editor_content s' = useDebounce_tick (editor_content s)"
    using Editor_step_content_of [OF assms(2)] by simp
  then show ?thesis
    using EditorTick assms(3) tick_fires [OF assms(1)] by simp
qed (use assms(3) Editor_step_content_of [OF assms(2)] in
    \<open>simp_all add: render_debounced split: if_splits\<close>)

lemma autosave_effect_requests:
  assumes "r \<in> set (snd (autosave_effect s))"
  shows "r = save_request (editor_filePath s) (debouncedValue (editor_content s))
    \<and> debouncedValue (editor_content s) \<noteq> []
    \<and> debouncedValue (editor_content s) \<noteq> originalContent s"
  using assms by (auto simp: autosave_effect_def saveContent_def split: if_splits)

lemma Editor_step_requests:
  assumes "Editor_step s e = (s', reqs)" and "r \<in> set reqs"
  shows "r = save_request (editor_filePath s') (debouncedValue (editor_content s'))
    \<and> debouncedValue (editor_content s') \<noteq> []
    \<and> debouncedValue (editor_content s') \<noteq> originalContent s'"
proof (cases e)
  case (Edit v)
  then show ?thesis using assms by (simp split: if_splits)
next
  case EditorTick
  let ?s1 = "s\<lparr>editor_content := useDebounce_tick (editor_content s)\<rparr>"
  from assms EditorTick have "s' = fst (autosave_effect ?s1)" and "r \<in> set (snd (autosave_effect ?s1))"
    by (auto simp: Let_def split: if_splits)
  then show ?thesis
    using autosave_effect_requests [of r ?s1] by (simp add: autosave_effect_keeps)
next
  case (FilePath p)
  then show ?thesis using assms by (simp split: if_splits)
next
  case (Loaded c)
  let ?s1 = "s\<lparr>editor_content := useDebounce_render 1000 c (editor_content s), originalContent := c,
    editor_error := None, editor_loading := False, fetching := fetching s - 1\<rparr>"
  from assms Loaded have "s' = fst (autosave_effect ?s1)" and "r \<in> set (snd (autosave_effect ?s1))"
    by (auto simp: Let_def split: if_splits)
  then show ?thesis
    using autosave_effect_requests [of r ?s1] by (simp add: autosave_effect_keeps)
next
  case LoadFailed
  then show ?thesis using assms by (simp split: if_splits)
next
  case (SaveSettled ok)
  from assms SaveSettled obtain c where c: "saving s = Some c"
    by (cases "saving s") auto
  let ?s1 = "s\<lparr>originalContent := c, saving := None\<rparr>"
  from assms SaveSettled c have "s' = fst (autosave_effect ?s1)" and "r \<in> set (snd (autosave_effect ?s1))"
    by (auto simp: Let_def split: if_splits)
  then show ?thesis
    using autosave_effect_requests [of r ?s1] by (simp add: autosave_effect_keeps)
qed

lemma Editor_edit_requests:
  assumes "Editor_step s (Edit v) = (s', reqs)"
  shows "reqs = []"
  using assms by (simp split: if_splits)

lemma Editor_tick_request:
  assumes "timer_ok 1000 (editor_content s)" and "Editor_step s EditorTick = (s', reqs)" and "reqs \<noteq> []"
  shows "unchanged (editor_content s') = 1000
    \<and> debouncedValue (editor_content s') = val (editor_content s')"
proof -
  have "debouncedValue (useDebounce_tick (editor_content s)) \<noteq> debouncedValue (editor_content s)"
    using assms(2,3) by (auto simp: Let_def split: if_splits)
  moreover have "editor_content s' = useDebounce_tick (editor_content s)"
    using Editor_step_content_of [OF assms(2)] by simp
  ultimately show ?thesis
    using tick_fires [OF assms(1)] by simp
qed

text \<open>As long as the prop \<open>filePath\<close> stays the same, only the first load is ever awaited.\<close>

lemma first_load_mount: "first_load (Editor_mount path)"
  by (simp add: first_load_def Editor_mount_def useDebounce_mount_def)

lemma tick_empty:
  assumes "val d = []" and "debouncedValue d = []"
  shows "val (useDebounce_tick d) = [] \<and> debouncedValue (useDebounce_tick d) = []"
  using assms by (simp add: useDebounce_tick_def split: option.splits)

lemma first_load_step:
  assumes "first_load s" and "keeps_file e"
  shows "first_load (fst (Editor_step s e))"
proof (cases e)
  case (Edit v)
  then show ?thesis
    using assms(1) by (auto simp: first_load_def editable_def)
next
  case EditorTick
  then show ?thesis
    using assms(1) tick_empty [of "editor_content s"]
    by (auto simp: first_load_def Let_def autosave_effect_keeps)
next
  case (FilePath p)
  then show ?thesis using assms(2) by simp
next
  case (Loaded c)
  then show ?thesis
    using assms(1) by (auto simp: first_load_def Let_def autosave_effect_keeps)
next
  case LoadFailed
  then show ?thesis
    using assms(1) by (auto simp: first_load_def)
next
  case (SaveSettled ok)
  then show ?thesis
    using assms(1)
    by (auto simp: first_load_def Let_def autosave_effect_keeps split: option.splits)
qed

lemma first_load_run: "list_all keeps_file es \<Longrightarrow> first_load (Editor_run path es)"
proof (induction es rule: rev_induct)
  case Nil
  then show ?case by (simp add: Editor_run_def first_load_mount)
next
  case (snoc e es)
  then show ?case
    using first_load_step [of "Editor_run path es" e] by (simp add: Editor_run_def)
qed

lemma Editor_step_filePath:
  "keeps_file e \<Longrightarrow> editor_filePath (fst (Editor_step s e)) = editor_filePath s"
  by (cases e) (simp_all add: Let_def autosave_effect_keeps split: option.splits)

lemma Editor_run_filePath: "list_all keeps_file es \<Longrightarrow> editor_filePath (Editor_run path es) = path"
proof (induction es rule: rev_induct)
  case Nil
  then show ?case by (simp add: Editor_run_def Editor_mount_def)
next
  case (snoc e es)
  then show ?case
    using Editor_step_filePath [of e "Editor_run path es"] by (simp add: Editor_run_def)
qed

text \<open>The first load sends no save request: the debounced content is still empty.\<close>

lemma first_load_sends_nothing:
  assumes "first_load s"
  shows "snd (Editor_step s (Loaded c)) = []"
proof (cases "fetching s = 0")
  case True
  then show ?thesis by simp
next
  case False
  with assms have "debouncedValue (editor_content s) = []"
    by (auto simp: first_load_def)
  then show ?thesis
    by (simp add: Let_def autosave_effect_def render_debounced)
qed

lemma Editor_step_sender:
  assumes "first_load s" and "keeps_file e" and "Editor_step s e = (s', reqs)" and "reqs \<noteq> []"
  shows "e = EditorTick \<or> e = SaveSettled True"
proof (cases e)
  case (Loaded c)
  then show ?thesis
    using first_load_sends_nothing [OF assms(1), of c] assms(3,4) by simp
next
  case (SaveSettled ok)
  then show ?thesis
    using assms(3,4) by (cases ok) (auto split: option.splits)
qed (use assms in \<open>auto split: if_splits\<close>)

lemma Editor_step_all:
  assumes "Editor_step (Editor_run path ees) ee = (t', ereqs)"
  shows "(debouncedValue (editor_content t') \<noteq> debouncedValue (editor_content (Editor_run path ees)) \<longrightarrow>
          ee = EditorTick \<and> unchanged (editor_content t') = 1000
          \<and> debouncedValue (editor_content t') = val (editor_content t'))
      \<and> ((\<exists>v. ee = Edit v) \<longrightarrow> ereqs = [])
      \<and> (ee = EditorTick \<and> ereqs \<noteq> [] \<longrightarrow>
          unchanged (editor_content t') = 1000
          \<and> debouncedValue (editor_content t') = val (editor_content t'))
      \<and> (\<forall>r \<in> set ereqs.
            r = save_request (editor_filePath t') (debouncedValue (editor_content t'))
            \<and> debouncedValue (editor_content t') \<noteq> []
            \<and> debouncedValue (editor_content t') \<noteq> originalContent t')
      \<and> (list_all keeps_file (ees @ [ee]) \<longrightarrow>
          editor_filePath t' = path
          \<and> (ereqs \<noteq> [] \<longrightarrow> ee = EditorTick \<or> ee = SaveSettled True))"
proof (intro conjI)
  show "debouncedValue (editor_content t') \<noteq> debouncedValue (editor_content (Editor_run path ees)) \<longrightarrow>
          ee = EditorTick \<and> unchanged (editor_content t') = 1000
          \<and> debouncedValue (editor_content t') = val (editor_content t')"
    using Editor_step_debounced [OF Editor_run_timer_ok assms] by blast
  show "(\<exists>v. ee = Edit v) \<longrightarrow> ereqs = []"
    using Editor_edit_requests assms by blast
  show "ee = EditorTick \<and> ereqs \<noteq> [] \<longrightarrow>
          unchanged (editor_content t') = 1000
          \<and> debouncedValue (editor_content t') = val (editor_content t')"
    using Editor_tick_request [OF Editor_run_timer_ok] assms by blast
  show "\<forall>r \<in> set ereqs.
            r = save_request (editor_filePath t') (debouncedValue (editor_content t'))
            \<and> debouncedValue (editor_content t') \<noteq> []
            \<and> debouncedValue (editor_content t') \<noteq> originalContent t'"
    using Editor_step_requests [OF assms] by blast
  show "list_all keeps_file (ees @ [ee]) \<longrightarrow>
          editor_filePath t' = path
          \<and> (ereqs \<noteq> [] \<longrightarrow> ee = EditorTick \<or> ee = SaveSettled True)"
  proof (intro impI conjI)
    assume run: "list_all keeps_file (ees @ [ee])"
    then have "editor_filePath (Editor_run path (ees @ [ee])) = path"
      by (rule Editor_run_filePath)
    then show "editor_filePath t' = path"
      using assms by (simp add: Editor_run_def)
    assume "ereqs \<noteq> []"
    moreover from run have "first_load (Editor_run path ees)" and "keeps_file ee"
      by (simp_all add: first_load_run)
    ultimately show "ee = EditorTick \<or> ee = SaveSettled True"
      using Editor_step_sender assms by blast
  qed
qed

subsection \<open>Runs\<close>

text \<open>Ticks that leave the interval running.\<close>

lemma Search_ticks:
  assumes "timer (search_query s) = Some r" and "n < r"
  shows "foldl (\<lambda>s e. fst (Search_step s e)) s (replicate n SearchTick)
    = s\<lparr>search_query := (search_query s)\<lparr>timer := Some (r - n), unchanged := unchanged (search_query s) + n\<rparr>\<rparr>"
  using assms
proof (induction n)
  case 0
  then show ?case by simp
next
  case (Suc n)
  have "replicate (Suc n) SearchTick = replicate n SearchTick @ [SearchTick]"
    by (simp add: replicate_append_same)
  then show ?case
    using Suc by (simp add: useDebounce_tick_def Let_def del: replicate.simps)
qed

lemma Editor_ticks:
  assumes "timer (editor_content s) = Some r" and "n < r"
  shows "foldl (\<lambda>s e. fst (Editor_step s e)) s (replicate n EditorTick)
    = s\<lparr>editor_content := (editor_content s)\<lparr>timer := Some (r - n), unchanged := unchanged (editor_content s) + n\<rparr>\<rparr>"
  using assms
proof (induction n)
  case 0
  then show ?case by simp
next
  case (Suc n)
  have "replicate (Suc n) EditorTick = replicate n EditorTick @ [EditorTick]"
    by (simp add: replicate_append_same)
  then show ?case
    using Suc by (simp add: useDebounce_tick_def Let_def del: replicate.simps)
qed

lemma Search_run_keystrokes: "Search_run keystrokes_then_wait =
  Search_mount\<lparr>search_query := \<lparr>val = str ''abc'', debouncedValue = [], timer = Some 1, unchanged = 299\<rparr>\<rparr>"
proof -
  let ?s1 = "Search_mount\<lparr>search_query := \<lparr>val = str ''abc'', debouncedValue = [], timer = Some 300, unchanged = 0\<rparr>\<rparr>"
  have "fst (Search_step Search_mount (Keystroke (str ''abc''))) = ?s1"
    by (simp add: Search_mount_def useDebounce_mount_def useDebounce_render_def str_def Let_def)
  moreover have "foldl (\<lambda>s e. fst (Search_step s e)) ?s1 (replicate 299 SearchTick)
      = ?s1\<lparr>search_query := (search_query ?s1)\<lparr>timer := Some (300 - 299),
          unchanged := unchanged (search_query ?s1) + 299\<rparr>\<rparr>"
    by (rule Search_ticks) simp_all
  ultimately show ?thesis
    by (simp add: keystrokes_then_wait_def Search_run_def)
qed

text \<open>The keystroke itself fetches the suggestions for \<open>abc\<close>, at once.\<close>

lemma Search_keystroke_suggestions:
  "snd (Search_step Search_mount (Keystroke (str ''abc'')))
     = [SuggestionsGet (str ''/api/search/suggestions?query=abc'')]"
  by (simp add: Search_mount_def useDebounce_mount_def useDebounce_render_def str_def Let_def
      suggestions_effect_def fetchSuggestions_def)

lemma Search_step_fires:
  "Search_step (Search_run keystrokes_then_wait) SearchTick =
     (searching_abc, [SearchPost (performSearch_request (str ''abc'') (searchOptions Search_mount))])"
  by (simp add: Search_run_keystrokes searching_abc_def useDebounce_tick_def search_effect_def
      performSearch_def Let_def str_def Search_mount_def)

lemma Search_run_keystroke_after_search:
  "Search_run keystroke_after_search =
     searching_abc\<lparr>search_query := \<lparr>val = str ''abcd'', debouncedValue = str ''abc'',
       timer = Some 300, unchanged = 0\<rparr>\<rparr>"
proof -
  have fired: "fst (Search_step (Search_run keystrokes_then_wait) SearchTick) = searching_abc"
    by (simp only: Search_step_fires fst_conv)
  have "Search_run keystroke_after_search
      = fst (Search_step (fst (Search_step (Search_run keystrokes_then_wait) SearchTick))
          (Keystroke (str ''abcd'')))"
    by (simp add: keystroke_after_search_def Search_run_def)
  also have "\<dots> = searching_abc\<lparr>search_query := \<lparr>val = str ''abcd'', debouncedValue = str ''abc'',
      timer = Some 300, unchanged = 0\<rparr>\<rparr>"
    unfolding fired by (simp add: searching_abc_def useDebounce_render_def str_def Let_def)
  finally show ?thesis .
qed

text \<open>
  Other than by typing and waiting, a search request can be sent at once: type \<open>abc\<close>,
  wait 300 ms (the search for \<open>abc\<close> is sent), type a \<open>d\<close> and click the Search button
  or switch an option. A search request for \<open>abc\<close> is sent, zero milliseconds after the
  input changed.
\<close>

lemma search_at_once_by_click_or_option:
  "snd (Search_step (Search_run keystroke_after_search) ClickSearch)
     = [SearchPost (performSearch_request (str ''abc'') (searchOptions Search_mount))]
   \<and> unchanged (search_query (fst (Search_step (Search_run keystroke_after_search) ClickSearch))) = 0
   \<and> snd (Search_step (Search_run keystroke_after_search)
        (Options \<lparr>case_sensitive = True, regex = False, sort_by = str ''relevance''\<rparr>))
     = [SearchPost (performSearch_request (str ''abc'')
          \<lparr>case_sensitive = True, regex = False, sort_by = str ''relevance''\<rparr>)]
   \<and> unchanged (search_query (fst (Search_step (Search_run keystroke_after_search)
        (Options \<lparr>case_sensitive = True, regex = False, sort_by = str ''relevance''\<rparr>)))) = 0"
  unfolding Search_run_keystroke_after_search
  by (simp add: searching_abc_def performSearch_def search_effect_def str_def Search_mount_def Let_def)

lemma Editor_run_append:
  "Editor_run path (es @ es') = foldl (\<lambda>s e. fst (Editor_step s e)) (Editor_run path es) es'"
  by (simp add: Editor_run_def)

lemma Editor_run_edits: "Editor_run (str ''notes.md'') edits_then_wait =
  notes_opened\<lparr>editor_content := \<lparr>val = str ''ab'', debouncedValue = [], timer = Some 1, unchanged = 999\<rparr>\<rparr>"
proof -
  let ?run = "foldl (\<lambda>s e. fst (Editor_step s e))"
  let ?s1 = "notes_opened\<lparr>editor_content := \<lparr>val = str ''ab'', debouncedValue = [], timer = Some 1000, unchanged = 0\<rparr>\<rparr>"
  have a: "fst (Editor_step (Editor_mount (str ''notes.md'')) (Loaded [])) = notes_opened"
    by (simp add: notes_opened_def Editor_mount_def useDebounce_mount_def useDebounce_render_def
        str_def Let_def)
  have b: "fst (Editor_step notes_opened (Edit (str ''ab''))) = ?s1"
    by (simp add: notes_opened_def Editor_mount_def editable_def useDebounce_mount_def
        useDebounce_render_def str_def)
  have "?run ?s1 (replicate 999 EditorTick)
      = ?s1\<lparr>editor_content := (editor_content ?s1)\<lparr>timer := Some (1000 - 999),
          unchanged := unchanged (editor_content ?s1) + 999\<rparr>\<rparr>"
    by (rule Editor_ticks) simp_all
  then have c: "?run ?s1 (replicate 999 EditorTick) =
      notes_opened\<lparr>editor_content := \<lparr>val = str ''ab'', debouncedValue = [], timer = Some 1, unchanged = 999\<rparr>\<rparr>"
    by simp
  have "Editor_run (str ''notes.md'') edits_then_wait
      = ?run (fst (Editor_step (fst (Editor_step (Editor_mount (str ''notes.md'')) (Loaded [])))
          (Edit (str ''ab'')))) (replicate 999 EditorTick)"
    unfolding edits_then_wait_def Editor_run_def by (simp only: foldl_append foldl.simps)
  then show ?thesis
    by (simp only: a b c)
qed

lemma Editor_step_fires:
  "Editor_step (Editor_run (str ''notes.md'') edits_then_wait) EditorTick =
     (saving_ab, [save_request (str ''notes.md'') (str ''ab'')])"
  unfolding Editor_run_edits
  by (simp add: saving_ab_def notes_opened_def useDebounce_tick_def autosave_effect_def
      saveContent_def Let_def str_def Editor_mount_def)

lemma Editor_run_edits_during_save:
  "Editor_run (str ''notes.md'') edits_during_save =
     saving_ab\<lparr>editor_content := \<lparr>val = str ''abcd'', debouncedValue = str ''abc'',
       timer = Some 1000, unchanged = 0\<rparr>\<rparr>"
proof -
  let ?run = "foldl (\<lambda>s e. fst (Editor_step s e))"
  let ?s2 = "saving_ab\<lparr>editor_content := \<lparr>val = str ''abc'', debouncedValue = str ''ab'',
       timer = Some 1000, unchanged = 0\<rparr>\<rparr>"
  let ?s3 = "saving_ab\<lparr>editor_content := \<lparr>val = str ''abc'', debouncedValue = str ''ab'',
       timer = Some 1, unchanged = 999\<rparr>\<rparr>"
  let ?s4 = "saving_ab\<lparr>editor_content := \<lparr>val = str ''abc'', debouncedValue = str ''abc'',
       timer = None, unchanged = 1000\<rparr>\<rparr>"
  have a: "fst (Editor_step (Editor_run (str ''notes.md'') edits_then_wait) EditorTick) = saving_ab"
    by (simp only: Editor_step_fires fst_conv)
  have b: "fst (Editor_step saving_ab (Edit (str ''abc''))) = ?s2"
    by (simp add: saving_ab_def notes_opened_def Editor_mount_def editable_def
        useDebounce_render_def str_def)
  have "?run ?s2 (replicate 999 EditorTick)
      = ?s2\<lparr>editor_content := (editor_content ?s2)\<lparr>timer := Some (1000 - 999),
          unchanged := unchanged (editor_content ?s2) + 999\<rparr>\<rparr>"
    by (rule Editor_ticks) simp_all
  then have c: "?run ?s2 (replicate 999 EditorTick) = ?s3"
    by simp
  have d: "fst (Editor_step ?s3 EditorTick) = ?s4"
    by (simp add: saving_ab_def notes_opened_def useDebounce_tick_def autosave_effect_def
        saveContent_def Let_def str_def Editor_mount_def)
  have e: "fst (Editor_step ?s4 (Edit (str ''abcd''))) =
      saving_ab\<lparr>editor_content := \<lparr>val = str ''abcd'', debouncedValue = str ''abc'',
        timer = Some 1000, unchanged = 0\<rparr>\<rparr>"
    by (simp add: saving_ab_def notes_opened_def Editor_mount_def editable_def
        useDebounce_render_def str_def)
  have "Editor_run (str ''notes.md'') edits_during_save
      = fst (Editor_step (fst (Editor_step (?run (fst (Editor_step (fst (Editor_step
          (Editor_run (str ''notes.md'') edits_then_wait) EditorTick)) (Edit (str ''abc''))))
          (replicate 999 EditorTick)) EditorTick)) (Edit (str ''abcd'')))"
    unfolding edits_during_save_def by (simp add: Editor_run_append del: replicate.simps)
  then show ?thesis
    by (simp only: a b c d e)
qed

lemma keeps_file_edits_during_save: "list_all keeps_file (edits_during_save @ [SaveSettled True])"
  by (simp add: edits_during_save_def edits_then_wait_def list_all_iff)

text \<open>
  When the parent shows another file in the same editor, the load of that file sends a
  save request at once, and the request carries the debounced content of the file shown
  before: after \<open>ab\<close> has been typed into \<open>notes.md\<close> and saved, the editor is given
  \<open>todo.md\<close>; when the content \<open>x\<close> of \<open>todo.md\<close> arrives, \<open>ab\<close> is posted under the path
  \<open>todo.md\<close>. The statements below are therefore about runs in which \<open>filePath\<close> stays
  the same.
\<close>

lemma Editor_run_other_file:
  "Editor_run (str ''notes.md'') edits_then_other_file =
     saving_ab\<lparr>originalContent := str ''ab'', saving := None, editor_filePath := str ''todo.md'',
       editor_loading := True, fetching := 1\<rparr>"
proof -
  have a: "fst (Editor_step (Editor_run (str ''notes.md'') edits_then_wait) EditorTick) = saving_ab"
    by (simp only: Editor_step_fires fst_conv)
  have b: "fst (Editor_step saving_ab (SaveSettled True)) = saving_ab\<lparr>originalContent := str ''ab'', saving := None\<rparr>"
    by (simp add: saving_ab_def notes_opened_def Editor_mount_def autosave_effect_def Let_def str_def)
  have c: "fst (Editor_step (saving_ab\<lparr>originalContent := str ''ab'', saving := None\<rparr>) (FilePath (str ''todo.md'')))
      = saving_ab\<lparr>originalContent := str ''ab'', saving := None, editor_filePath := str ''todo.md'',
          editor_loading := True, fetching := 1\<rparr>"
    by (simp add: saving_ab_def notes_opened_def Editor_mount_def str_def)
  have "Editor_run (str ''notes.md'') edits_then_other_file
      = fst (Editor_step (fst (Editor_step (fst (Editor_step
          (Editor_run (str ''notes.md'') edits_then_wait) EditorTick)) (SaveSettled True)))
          (FilePath (str ''todo.md'')))"
    unfolding edits_then_other_file_def by (simp only: Editor_run_append foldl.simps)
  then show ?thesis
    by (simp only: a b c)
qed

lemma stale_content_saved_under_new_path:
  "snd (Editor_step (Editor_run (str ''notes.md'') edits_then_other_file) (Loaded (str ''x'')))
     = [save_request (str ''todo.md'') (str ''ab'')]"
  unfolding Editor_run_other_file
  by (simp add: saving_ab_def notes_opened_def Editor_mount_def autosave_effect_def saveContent_def
      useDebounce_render_def Let_def str_def)

subsection \<open>The claim\<close>

text \<open>
  Claim C7, as stated: for every sequence of edits, the auto-save request is sent only
  when the content has been unchanged for the debounce interval. It is not. Open
  \<open>notes.md\<close>, type \<open>ab\<close> and wait a second: the save of \<open>ab\<close> is sent. While it is on
  its way, type \<open>c\<close> and wait a second (no save is sent, one is on its way), then type
  \<open>d\<close>. When the first save comes back, the save of \<open>abc\<close> is sent, zero milliseconds
  after the content changed to \<open>abcd\<close>. The prop \<open>filePath\<close> is \<open>notes.md\<close> throughout.
\<close>

theorem save_at_once_counterexample:
  "snd (Editor_step (Editor_run (str ''notes.md'') edits_during_save) (SaveSettled True))
     = [save_request (str ''notes.md'') (str ''abc'')]
   \<and> val (editor_content (fst (Editor_step (Editor_run (str ''notes.md'') edits_during_save)
        (SaveSettled True)))) = str ''abcd''
   \<and> unchanged (editor_content (fst (Editor_step (Editor_run (str ''notes.md'') edits_during_save)
        (SaveSettled True)))) = 0
   \<and> list_all keeps_file (edits_during_save @ [SaveSettled True])"
  unfolding Editor_run_edits_during_save
  using keeps_file_edits_during_save
  by (simp add: saving_ab_def notes_opened_def autosave_effect_def saveContent_def Let_def str_def
      Editor_mount_def)

text \<open>
  Claim C7, amended. With the hook as the spec describes it, at every moment of every
  run of the two components:

  \<^item> Search. The debounced query changes only by a tick of the clock, when the input has
    been unchanged for 300 ms. A keystroke sends no search request, and a search request
    sent by a tick is sent when the input has been unchanged for 300 ms and carries that
    input. So in every sequence of keystrokes, the search request is sent only after the
    input has remained unchanged for the interval. Every search request carries the
    debounced query, which is not empty. The request for suggestions is not debounced: it
    is sent by the keystroke that changes the input, and carries the input.
  \<^item> Editor. The debounced content changes only by a tick of the clock, when the content
    has been unchanged for 1000 ms. An edit sends no save request, and a save request
    sent by a tick is sent when the content has been unchanged for 1000 ms and carries
    that content. Every save request carries the debounced content, which is not empty
    and differs from the content last loaded or saved. As long as \<open>filePath\<close> stays the
    same, every save request goes to that path and is sent either by such a tick or at
    the moment an earlier save request comes back successfully.
\<close>

theorem debounced_requests:
  "(Search_step (Search_run ses) se = (s', sent) \<longrightarrow>
      (debouncedValue (search_query s') \<noteq> debouncedValue (search_query (Search_run ses)) \<longrightarrow>
          se = SearchTick \<and> unchanged (search_query s') = 300
          \<and> debouncedValue (search_query s') = val (search_query s'))
      \<and> ((\<exists>q. se = Keystroke q) \<longrightarrow> (\<forall>r. SearchPost r \<notin> set sent))
      \<and> (se = SearchTick \<longrightarrow>
          (\<forall>r. SearchPost r \<in> set sent \<longrightarrow>
             unchanged (search_query s') = 300
             \<and> debouncedValue (search_query s') = val (search_query s')))
      \<and> (\<forall>r. SearchPost r \<in> set sent \<longrightarrow>
            r = performSearch_request (debouncedValue (search_query s')) (searchOptions s')
            \<and> debouncedValue (search_query s') \<noteq> [])
      \<and> (\<forall>u. SuggestionsGet u \<in> set sent \<longrightarrow>
            se = Keystroke (val (search_query s'))
            \<and> val (search_query s') \<noteq> val (search_query (Search_run ses))
            \<and> u = str ''/api/search/suggestions?query='' @ val (search_query s')))
   \<and> (Editor_step (Editor_run path ees) ee = (t', ereqs) \<longrightarrow>
      (debouncedValue (editor_content t') \<noteq> debouncedValue (editor_content (Editor_run path ees)) \<longrightarrow>
          ee = EditorTick \<and> unchanged (editor_content t') = 1000
          \<and> debouncedValue (editor_content t') = val (editor_content t'))
      \<and> ((\<exists>v. ee = Edit v) \<longrightarrow> ereqs = [])
      \<and> (ee = EditorTick \<and> ereqs \<noteq> [] \<longrightarrow>
          unchanged (editor_content t') = 1000
          \<and> debouncedValue (editor_content t') = val (editor_content t'))
      \<and> (\<forall>r \<in> set ereqs.
            r = save_request (editor_filePath t') (debouncedValue (editor_content t'))
            \<and> debouncedValue (editor_content t') \<noteq> []
            \<and> debouncedValue (editor_content t') \<noteq> originalContent t')
      \<and> (list_all keeps_file (ees @ [ee]) \<longrightarrow>
          editor_filePath t' = path
          \<and> (ereqs \<noteq> [] \<longrightarrow> ee = EditorTick \<or> ee = SaveSettled True)))"
  apply (rule conjI)
   apply (rule impI)
   apply (erule Search_step_all)
  apply (rule impI)
  apply (erule Editor_step_all)
  done

text \<open>
  Typing \<open>abc\<close> and waiting: the 300th tick sends the search for \<open>abc\<close>. Opening
  \<open>notes.md\<close>, typing \<open>ab\<close> into the editor and waiting: the 1000th tick sends the save
  of \<open>ab\<close> to \<open>notes.md\<close>.
\<close>

theorem debounced_requests_witness:
  "Search_step (Search_run keystrokes_then_wait) SearchTick =
     (searching_abc, [SearchPost (performSearch_request (str ''abc'') (searchOptions Search_mount))])
   \<and> unchanged (search_query searching_abc) = 300
   \<and> val (search_query searching_abc) = str ''abc''
   \<and> debouncedValue (search_query searching_abc) = str ''abc''
   \<and> list_all keeps_file (edits_then_wait @ [EditorTick])
   \<and> Editor_step (Editor_run (str ''notes.md'') edits_then_wait) EditorTick =
     (saving_ab, [save_request (str ''notes.md'') (str ''ab'')])
   \<and> unchanged (editor_content saving_ab) = 1000
   \<and> val (editor_content saving_ab) = str ''ab''
   \<and> debouncedValue (editor_content saving_ab) \<noteq> originalContent saving_ab
   \<and> editor_filePath saving_ab = str ''notes.md''"
proof -
  note all = debounced_requests [of keystrokes_then_wait SearchTick searching_abc
      "[SearchPost (performSearch_request (str ''abc'') (searchOptions Search_mount))]"
      "str ''notes.md''" edits_then_wait EditorTick saving_ab
      "[save_request (str ''notes.md'') (str ''ab'')]"]
  note search = all [THEN conjunct1, THEN mp, OF Search_step_fires]
  note editor = all [THEN conjunct2, THEN mp, OF Editor_step_fires]
  note search_tick = search [THEN conjunct2, THEN conjunct2, THEN conjunct1]
  note editor_tick = editor [THEN conjunct2, THEN conjunct2, THEN conjunct1]
  note editor_reqs = editor [THEN conjunct2, THEN conjunct2, THEN conjunct2, THEN conjunct1]
  note editor_file = editor [THEN conjunct2, THEN conjunct2, THEN conjunct2, THEN conjunct2]
  have k: "list_all keeps_file (edits_then_wait @ [EditorTick])"
    by (simp add: edits_then_wait_def list_all_iff)
  have s1: "unchanged (search_query searching_abc) = 300"
    using search_tick by simp
  have s2: "val (search_query searching_abc) = str ''abc''"
    and s3: "debouncedValue (search_query searching_abc) = str ''abc''"
    by (simp_all add: searching_abc_def)
  have e1: "unchanged (editor_content saving_ab) = 1000"
    using editor_tick by simp
  have e2: "val (editor_content saving_ab) = str ''ab''"
    by (simp add: saving_ab_def)
  have e3: "debouncedValue (editor_content saving_ab) \<noteq> originalContent saving_ab"
    using editor_reqs by simp
  have e4: "editor_filePath saving_ab = str ''notes.md''"
    using editor_file k by simp
  show ?thesis
    by (intro conjI Search_step_fires Editor_step_fires k s1 s2 s3 e1 e2 e3 e4)
qed


end
